theory Spec2Isabelle
  imports Main "HOL-Library.Word" "HOL-Library.AList" "HOL-Library.Char_ord"
    "HOL-Library.List_Lexorder"
begin

unbundle bit_operations_syntax

section \<open>The recovery unit of the RocksDB storage layer\<close>

text \<open>
  A shallow embedding of \<^verbatim>\<open>src/mongo/db/storage/rocks/rocks_recovery_unit.cpp\<close>.
  The member functions of \<^verbatim>\<open>RocksRecoveryUnit\<close> become functions that take the
  outside world and the object's fields and return both, updated. A failed
  \<^verbatim>\<open>invariant\<close> ends the process: it is the \<open>Inl\<close> branch of the result.
\<close>

subsection \<open>Collaborators\<close>

type_synonym bytes = string
type_synonym cf = nat
type_synonym snap = nat
type_synonym change = nat
type_synonym addr = nat
type_synonym RecordId = int
type_synonym table = "(cf \<times> bytes) \<rightharpoonup> bytes"

text \<open>
  Modelled from the spec: the write buffer (\<^verbatim>\<open>rocksdb::WriteBatchWithIndex\<close>, a library
  type that is not part of the sources). It is "an ordered, queryable overlay of pending
  put/delete operations": the batch is the list of its records in the order they were
  appended, each with its column family.
\<close>

datatype WriteType = kPutRecord | kDeleteRecord

datatype WriteEntry = WriteEntry (etype: WriteType) (ekey: bytes) (evalue: bytes)

type_synonym WriteBatchWithIndex = "(cf \<times> WriteEntry) list"

definition Count :: "WriteBatchWithIndex \<Rightarrow> nat" where
  "Count b = length b"

definition wb_Put :: "cf \<Rightarrow> bytes \<Rightarrow> bytes \<Rightarrow> WriteBatchWithIndex \<Rightarrow> WriteBatchWithIndex" where
  "wb_Put c k v b = b @ [(c, WriteEntry kPutRecord k v)]"

definition wb_Delete :: "cf \<Rightarrow> bytes \<Rightarrow> WriteBatchWithIndex \<Rightarrow> WriteBatchWithIndex" where
  "wb_Delete c k b = b @ [(c, WriteEntry kDeleteRecord k [])]"

text \<open>
  Modelled from the spec: the index of the write buffer. The source builds the buffer with
  \<^verbatim>\<open>overwrite_key = true\<close> (the third constructor argument), so the index holds, for
  each key of a column family, only the record appended last ("last-writer-within-buffer
  wins"). \<open>index_insert\<close> is what appending one record does to the index of its column
  family.
\<close>

definition index_insert :: "WriteEntry \<Rightarrow> WriteEntry list \<Rightarrow> WriteEntry list" where
  "index_insert e idx = filter (\<lambda>e'. ekey e' \<noteq> ekey e) idx @ [e]"

fun wbwi_index :: "cf \<Rightarrow> WriteBatchWithIndex \<Rightarrow> WriteEntry list \<Rightarrow> WriteEntry list" where
  "wbwi_index c [] idx = idx"
| "wbwi_index c ((c', e) # b) idx =
     wbwi_index c b (if c' = c then index_insert e idx else idx)"

definition wbwi_NewIterator :: "cf \<Rightarrow> WriteBatchWithIndex \<Rightarrow> WriteEntry list" where
  "wbwi_NewIterator c b = wbwi_index c b []"

text \<open>
  Modelled from the spec: \<^verbatim>\<open>WBWIIterator::Seek\<close> positions the iterator at the entry with
  the least key that is not below the target, in the bytewise order of the comparator the
  buffer was built with; the iterator is not \<^verbatim>\<open>Valid\<close> (\<open>None\<close>) when there is none.
\<close>

fun wbwi_Seek :: "WriteEntry list \<Rightarrow> bytes \<Rightarrow> WriteEntry option" where
  "wbwi_Seek [] target = None"
| "wbwi_Seek (e # es) target =
     (case wbwi_Seek es target of
        None \<Rightarrow> if target \<le> ekey e then Some e else None
      | Some m \<Rightarrow> if target \<le> ekey e \<and> ekey e < ekey m then Some e else Some m)"

text \<open>
  Modelled from the spec: the store (\<^verbatim>\<open>rocksdb::DB\<close>), "treated as a trusted primitive":
  point lookups scoped to a snapshot, atomic application of a batch, and snapshots that are
  point-in-time views, live until released. \<open>db_writeFails\<close> is the store's answer to the
  next \<^verbatim>\<open>Write\<close>: the store may reject a batch.
\<close>

record DB =
  db_data :: table
  db_snapshots :: "snap \<rightharpoonup> table"
  db_nextSnapshot :: snap
  db_writeFails :: bool

record WriteOptions =
  disableWAL :: bool

definition WriteOptions_default :: WriteOptions where
  "WriteOptions_default = \<lparr>disableWAL = False\<rparr>"

record ReadOptions =
  ro_snapshot :: "snap option"

definition ReadOptions_default :: ReadOptions where
  "ReadOptions_default = \<lparr>ro_snapshot = None\<rparr>"

datatype Status = OK | NotFound

definition DefaultColumnFamily :: "DB \<Rightarrow> cf" where
  "DefaultColumnFamily d = 0"

fun apply_batch :: "WriteBatchWithIndex \<Rightarrow> table \<Rightarrow> table" where
  "apply_batch [] t = t"
| "apply_batch ((c, e) # b) t =
     apply_batch b (case etype e of
        kPutRecord \<Rightarrow> t((c, ekey e) \<mapsto> evalue e)
      | kDeleteRecord \<Rightarrow> t((c, ekey e) := None))"

definition db_Write :: "WriteOptions \<Rightarrow> WriteBatchWithIndex \<Rightarrow> DB \<Rightarrow> bool \<times> DB" where
  "db_Write opts b d =
     (if db_writeFails d then (False, d)
      else (True, d\<lparr>db_data := apply_batch b (db_data d)\<rparr>))"

definition db_GetSnapshot :: "DB \<Rightarrow> snap \<times> DB" where
  "db_GetSnapshot d =
     (db_nextSnapshot d,
      d\<lparr>db_snapshots := (db_snapshots d)(db_nextSnapshot d \<mapsto> db_data d),
        db_nextSnapshot := db_nextSnapshot d + 1\<rparr>)"

definition db_ReleaseSnapshot :: "snap \<Rightarrow> DB \<Rightarrow> DB" where
  "db_ReleaseSnapshot h d = d\<lparr>db_snapshots := (db_snapshots d)(h := None)\<rparr>"

text \<open>
  A read through a handle that is not live is outside the store's contract (the recovery
  unit never makes one); the model answers it from the empty table.
\<close>

definition db_view :: "ReadOptions \<Rightarrow> DB \<Rightarrow> table" where
  "db_view opts d =
     (case ro_snapshot opts of
        None \<Rightarrow> db_data d
      | Some h \<Rightarrow> (case db_snapshots d h of None \<Rightarrow> Map.empty | Some t \<Rightarrow> t))"

definition db_Get :: "ReadOptions \<Rightarrow> cf \<Rightarrow> bytes \<Rightarrow> DB \<Rightarrow> Status \<times> bytes option" where
  "db_Get opts c k d =
     (case db_view opts d (c, k) of None \<Rightarrow> (NotFound, None) | Some v \<Rightarrow> (OK, Some v))"

text \<open>
  Modelled from the spec: an iterator is kept as the description of what it ranges over, a
  base iterator of the store, or the write buffer laid over a base iterator.
\<close>

datatype Iterator = DbIterator ReadOptions cf | WithBase cf WriteBatchWithIndex Iterator

text \<open>
  Modelled from the spec: the conflict tracker (\<^verbatim>\<open>RocksTransaction\<close>, whose source is not
  part of the sources) and the registered \<^verbatim>\<open>Change\<close> objects are collaborators known by
  their calls only. Every call that leaves the recovery unit is appended to a trace, in the
  order the calls are made.
\<close>

datatype event =
    TxnRecordSnapshotId
  | TxnCommit
  | TxnAbort
  | DbGetSnapshot snap
  | DbReleaseSnapshot snap
  | DbWrite WriteOptions WriteBatchWithIndex
  | DbGet ReadOptions cf bytes
  | DbNewIterator ReadOptions cf
  | ChangeCommit change
  | ChangeRollback change

text \<open>
  The world outside one recovery unit: the store, the shared in-memory counters
  (\<^verbatim>\<open>std::atomic<long long>\<close>, by address) and the trace.
\<close>

record world =
  db :: DB
  counters :: "addr \<Rightarrow> 64 word"
  trace :: "event list"

definition emit :: "event \<Rightarrow> world \<Rightarrow> world" where
  "emit e w = w\<lparr>trace := trace w @ [e]\<rparr>"

subsection \<open>The recovery unit\<close>

datatype Counter = Counter (counter_value: addr) (counter_delta: "64 word")

record RocksRecoveryUnit =
  ru_durable :: bool
  ru_writeBatch :: "WriteBatchWithIndex option"
  ru_snapshot :: "snap option"
  ru_depth :: int
  ru_changes :: "change list"
  ru_deltaCounters :: "(bytes \<times> Counter) list"
  ru_oplogReadTill :: "RecordId option"

datatype fatal = InvariantFailure string

text \<open>
  The constructor. \<^verbatim>\<open>_oplogReadTill\<close> is not in the initialiser list: it starts as the
  default record identifier, \<open>None\<close> here.
\<close>

definition new_RocksRecoveryUnit :: "bool \<Rightarrow> RocksRecoveryUnit" where
  "new_RocksRecoveryUnit durable =
     \<lparr>ru_durable = durable, ru_writeBatch = None, ru_snapshot = None, ru_depth = 0,
      ru_changes = [], ru_deltaCounters = [], ru_oplogReadTill = None\<rparr>"

definition beginUnitOfWork :: "RocksRecoveryUnit \<Rightarrow> RocksRecoveryUnit" where
  "beginUnitOfWork s = s\<lparr>ru_depth := ru_depth s + 1\<rparr>"

text \<open>
  \<^verbatim>\<open>writeBatch()\<close> creates the buffer on first use. The callers write through the pointer
  it returns; \<open>writeBatch_Put\<close> and \<open>writeBatch_Delete\<close> are
  \<^verbatim>\<open>writeBatch()->Put(cf, key, value)\<close> and \<^verbatim>\<open>writeBatch()->Delete(cf, key)\<close>.
\<close>

definition writeBatch :: "RocksRecoveryUnit \<Rightarrow> RocksRecoveryUnit" where
  "writeBatch s =
     (case ru_writeBatch s of None \<Rightarrow> s\<lparr>ru_writeBatch := Some []\<rparr> | Some b \<Rightarrow> s)"

definition writeBatch_Put :: "cf \<Rightarrow> bytes \<Rightarrow> bytes \<Rightarrow> RocksRecoveryUnit \<Rightarrow> RocksRecoveryUnit" where
  "writeBatch_Put c k v s =
     (let s1 = writeBatch s
      in s1\<lparr>ru_writeBatch := map_option (wb_Put c k v) (ru_writeBatch s1)\<rparr>)"

definition writeBatch_Delete :: "cf \<Rightarrow> bytes \<Rightarrow> RocksRecoveryUnit \<Rightarrow> RocksRecoveryUnit" where
  "writeBatch_Delete c k s =
     (let s1 = writeBatch s
      in s1\<lparr>ru_writeBatch := map_option (wb_Delete c k) (ru_writeBatch s1)\<rparr>)"

definition setOplogReadTill :: "RecordId \<Rightarrow> RocksRecoveryUnit \<Rightarrow> RocksRecoveryUnit" where
  "setOplogReadTill record s = s\<lparr>ru_oplogReadTill := Some record\<rparr>"

definition registerChange :: "change \<Rightarrow> RocksRecoveryUnit \<Rightarrow> RocksRecoveryUnit" where
  "registerChange c s = s\<lparr>ru_changes := ru_changes s @ [c]\<rparr>"

definition releaseSnapshot :: "world \<Rightarrow> RocksRecoveryUnit \<Rightarrow> world \<times> RocksRecoveryUnit" where
  "releaseSnapshot w s =
     (case ru_snapshot s of
        None \<Rightarrow> (w, s)
      | Some h \<Rightarrow>
          (emit (DbReleaseSnapshot h) (w\<lparr>db := db_ReleaseSnapshot h (db w)\<rparr>),
           s\<lparr>ru_snapshot := None\<rparr>))"

text \<open>
  The persisted form of a counter: the eight bytes of the \<^verbatim>\<open>long long\<close> as they lie in
  memory, here on a little-endian machine.
\<close>

definition encode_longlong :: "64 word \<Rightarrow> bytes" where
  "encode_longlong x = map (\<lambda>i. char_of (unat (drop_bit (8 * i) x))) [0..<8]"

text \<open>
  Modelled from the spec: reading a persisted counter back, which the sources do not
  contain. The persisted form is "a fixed-width signed integer written verbatim", so the
  reader takes the bytes as they lie in memory, least significant first.
\<close>

definition decode_longlong :: "bytes \<Rightarrow> 64 word" where
  "decode_longlong bs = foldr (\<lambda>c acc. of_nat (of_char c) OR push_bit 8 acc) bs 0"

text \<open>
  The loop of \<^verbatim>\<open>_commit\<close> over the counter deltas. The source iterates over
  \<^verbatim>\<open>_deltaCounters\<close> in the order of its container, which need not be the order in which
  the keys were first incremented; the model keeps the entries in a list and
  goes through the list, to which \<open>incrementCounter\<close> appends a new key. The properties
  below do not depend on the order in which the counters are flushed: they are stated for
  every unit, so for every order of the list, and they say nothing of the order of the
  counters in the batch. \<^verbatim>\<open>Put(key, value)\<close> without a column family writes to
  the default one, number 0.
\<close>

fun flushCounters ::
  "(bytes \<times> Counter) list \<Rightarrow> world \<Rightarrow> RocksRecoveryUnit \<Rightarrow> world \<times> RocksRecoveryUnit" where
  "flushCounters [] w s = (w, s)"
| "flushCounters ((k, c) # rest) w s =
     (let w1 = w\<lparr>counters := (counters w)
                  (counter_value c := counters w (counter_value c) + counter_delta c)\<rparr>;
          newValue = counters w1 (counter_value c);
          s1 = writeBatch_Put 0 k (encode_longlong newValue) s
      in flushCounters rest w1 s1)"

text \<open>\<^verbatim>\<open>_commit\<close>.\<close>

definition ru_commit ::
  "world \<Rightarrow> RocksRecoveryUnit \<Rightarrow> fatal + world \<times> RocksRecoveryUnit" where
  "ru_commit w s =
     (if ru_writeBatch s = None then Inl (InvariantFailure ''_writeBatch'')
      else
        (case flushCounters (ru_deltaCounters s) w s of (w1, s1) \<Rightarrow>
           (case ru_writeBatch s1 of
              None \<Rightarrow> Inl (InvariantFailure ''_writeBatch'')
            | Some b \<Rightarrow>
                (case
                   (if Count b \<noteq> 0 then
                      (let writeOptions = WriteOptions_default\<lparr>disableWAL := \<not> ru_durable s1\<rparr>;
                           r = db_Write WriteOptions_default b (db w1);
                           w2 = emit (DbWrite WriteOptions_default b) (w1\<lparr>db := snd r\<rparr>)
                       in if \<not> fst r
                          then Inl (InvariantFailure ''rocks write batch commit failed'')
                          else Inr (emit TxnCommit w2))
                    else Inr w1)
                 of
                   Inl e \<Rightarrow> Inl e
                 | Inr w3 \<Rightarrow> Inr (w3, s1\<lparr>ru_deltaCounters := [], ru_writeBatch := None\<rparr>)))))"

text \<open>\<^verbatim>\<open>_abort\<close>.\<close>

definition ru_abort :: "world \<Rightarrow> RocksRecoveryUnit \<Rightarrow> world \<times> RocksRecoveryUnit" where
  "ru_abort w s =
     (let w1 = foldl (\<lambda>w' c. emit (ChangeRollback c) w') w (rev (ru_changes s));
          s1 = s\<lparr>ru_changes := []\<rparr>;
          w2 = emit TxnAbort w1;
          s2 = s1\<lparr>ru_deltaCounters := [], ru_writeBatch := None\<rparr>
      in releaseSnapshot w2 s2)"

definition commitUnitOfWork ::
  "world \<Rightarrow> RocksRecoveryUnit \<Rightarrow> fatal + world \<times> RocksRecoveryUnit" where
  "commitUnitOfWork w s =
     (if ru_depth s > 1 then Inr (w, s)
      else
        (case (if ru_writeBatch s \<noteq> None then ru_commit w s else Inr (w, s)) of
           Inl e \<Rightarrow> Inl e
         | Inr (w1, s1) \<Rightarrow>
             (let w2 = foldl (\<lambda>w' c. emit (ChangeCommit c) w') w1 (ru_changes s1);
                  s2 = s1\<lparr>ru_changes := []\<rparr>
              in Inr (releaseSnapshot w2 s2))))"

definition endUnitOfWork :: "world \<Rightarrow> RocksRecoveryUnit \<Rightarrow> world \<times> RocksRecoveryUnit" where
  "endUnitOfWork w s =
     (let s1 = s\<lparr>ru_depth := ru_depth s - 1\<rparr>
      in if ru_depth s1 = 0 then ru_abort w s1 else (w, s1))"

definition awaitCommit :: "RocksRecoveryUnit \<Rightarrow> bool" where
  "awaitCommit s = True"

definition commitAndRestart ::
  "world \<Rightarrow> RocksRecoveryUnit \<Rightarrow> fatal + world \<times> RocksRecoveryUnit" where
  "commitAndRestart w s =
     (if ru_depth s \<noteq> 0 then Inl (InvariantFailure ''_depth == 0'')
      else commitUnitOfWork w s)"

definition snapshot :: "world \<Rightarrow> RocksRecoveryUnit \<Rightarrow> snap \<times> world \<times> RocksRecoveryUnit" where
  "snapshot w s =
     (case ru_snapshot s of
        None \<Rightarrow>
          (let w1 = emit TxnRecordSnapshotId w;
               r = db_GetSnapshot (db w1);
               w2 = emit (DbGetSnapshot (fst r)) (w1\<lparr>db := snd r\<rparr>)
           in (fst r, w2, s\<lparr>ru_snapshot := Some (fst r)\<rparr>))
      | Some h \<Rightarrow> (h, w, s))"

text \<open>
  \<^verbatim>\<open>Get\<close>. \<open>probe\<close> is the condition of its first two \<^verbatim>\<open>if\<close>s: the entry the
  iterator of the write buffer stands on after \<^verbatim>\<open>Seek(key)\<close>, when there is a non-empty
  buffer, the iterator is valid and the entry's key is the key looked up. The first
  component of the result of \<open>Get\<close> is the status with the string written to
  \<^verbatim>\<open>*value\<close>, if one was written.
\<close>

definition probe :: "RocksRecoveryUnit \<Rightarrow> cf \<Rightarrow> bytes \<Rightarrow> WriteEntry option" where
  "probe s c k =
     (case ru_writeBatch s of
        None \<Rightarrow> None
      | Some b \<Rightarrow>
          if Count b > 0 then
            (case wbwi_Seek (wbwi_NewIterator c b) k of
               None \<Rightarrow> None
             | Some entry \<Rightarrow> if ekey entry = k then Some entry else None)
          else None)"

definition Get ::
  "cf \<Rightarrow> bytes \<Rightarrow> world \<Rightarrow> RocksRecoveryUnit
     \<Rightarrow> (Status \<times> bytes option) \<times> world \<times> RocksRecoveryUnit" where
  "Get c k w s =
     (case probe s c k of
        Some entry \<Rightarrow>
          if etype entry = kDeleteRecord then ((NotFound, None), w, s)
          else ((OK, Some (evalue entry)), w, s)
      | None \<Rightarrow>
          (case snapshot w s of (h, w1, s1) \<Rightarrow>
             (let options = ReadOptions_default\<lparr>ro_snapshot := Some h\<rparr>
              in (db_Get options c k (db w1), emit (DbGet options c k) w1, s1))))"

definition NewIterator ::
  "cf \<Rightarrow> world \<Rightarrow> RocksRecoveryUnit \<Rightarrow> fatal + Iterator \<times> world \<times> RocksRecoveryUnit" where
  "NewIterator c w s =
     (if c = DefaultColumnFamily (db w)
      then Inl (InvariantFailure ''columnFamily != _db->DefaultColumnFamily()'')
      else
        (case snapshot w s of (h, w1, s1) \<Rightarrow>
           (let options = ReadOptions_default\<lparr>ro_snapshot := Some h\<rparr>;
                iterator = DbIterator options c;
                w2 = emit (DbNewIterator options c) w1
            in Inr (case ru_writeBatch s1 of
                      None \<Rightarrow> iterator
                    | Some b \<Rightarrow> if Count b > 0 then WithBase c b iterator else iterator,
                    w2, s1))))"

text \<open>
  \<^verbatim>\<open>incrementCounter\<close> and \<^verbatim>\<open>getDeltaCounter\<close>. The sum of two deltas is taken on 64
  bits.
\<close>

definition incrementCounter ::
  "bytes \<Rightarrow> addr \<Rightarrow> 64 word \<Rightarrow> RocksRecoveryUnit \<Rightarrow> RocksRecoveryUnit" where
  "incrementCounter counterKey counter delta s =
     (if delta = 0 then s
      else
        (case map_of (ru_deltaCounters s) counterKey of
           None \<Rightarrow>
             s\<lparr>ru_deltaCounters := ru_deltaCounters s @ [(counterKey, Counter counter delta)]\<rparr>
         | Some p \<Rightarrow>
             s\<lparr>ru_deltaCounters :=
                 AList.update counterKey
                   (Counter (counter_value p) (counter_delta p + delta))
                   (ru_deltaCounters s)\<rparr>))"

definition getDeltaCounter :: "bytes \<Rightarrow> RocksRecoveryUnit \<Rightarrow> 64 word" where
  "getDeltaCounter counterKey s =
     (case map_of (ru_deltaCounters s) counterKey of
        None \<Rightarrow> 0
      | Some p \<Rightarrow> counter_delta p)"


text \<open>The destructor.\<close>

definition destroy :: "world \<Rightarrow> RocksRecoveryUnit \<Rightarrow> world \<times> RocksRecoveryUnit" where
  "destroy w s = ru_abort w s"

subsection \<open>The interface as one step function\<close>

text \<open>
  Every call a client can make on a live recovery unit, and its effect on the world and on
  the unit (values returned to the client are dropped). \<open>run\<close> makes the calls of a list
  in order and stops at the first fatal failure.
\<close>

datatype call =
    Call_beginUnitOfWork
  | Call_commitUnitOfWork
  | Call_endUnitOfWork
  | Call_commitAndRestart
  | Call_awaitCommit
  | Call_writeBatch
  | Call_setOplogReadTill RecordId
  | Call_Put cf bytes bytes
  | Call_Delete cf bytes
  | Call_registerChange change
  | Call_snapshot
  | Call_Get cf bytes
  | Call_NewIterator cf
  | Call_incrementCounter bytes addr "64 word"
  | Call_getDeltaCounter bytes

fun step :: "call \<Rightarrow> world \<times> RocksRecoveryUnit \<Rightarrow> fatal + world \<times> RocksRecoveryUnit" where
  "step Call_beginUnitOfWork (w, s) = Inr (w, beginUnitOfWork s)"
| "step Call_commitUnitOfWork (w, s) = commitUnitOfWork w s"
| "step Call_endUnitOfWork (w, s) = Inr (endUnitOfWork w s)"
| "step Call_commitAndRestart (w, s) = commitAndRestart w s"
| "step Call_awaitCommit (w, s) = Inr (w, s)"
| "step Call_writeBatch (w, s) = Inr (w, writeBatch s)"
| "step (Call_setOplogReadTill r) (w, s) = Inr (w, setOplogReadTill r s)"
| "step (Call_Put c k v) (w, s) = Inr (w, writeBatch_Put c k v s)"
| "step (Call_Delete c k) (w, s) = Inr (w, writeBatch_Delete c k s)"
| "step (Call_registerChange c) (w, s) = Inr (w, registerChange c s)"
| "step Call_snapshot (w, s) = Inr (snd (snapshot w s))"
| "step (Call_Get c k) (w, s) = Inr (snd (Get c k w s))"
| "step (Call_NewIterator c) (w, s) = map_sum id snd (NewIterator c w s)"
| "step (Call_incrementCounter k a d) (w, s) = Inr (w, incrementCounter k a d s)"
| "step (Call_getDeltaCounter k) (w, s) = Inr (w, s)"

fun run :: "call list \<Rightarrow> world \<times> RocksRecoveryUnit \<Rightarrow> fatal + world \<times> RocksRecoveryUnit" where
  "run [] ws = Inr ws"
| "run (c # cs) ws = (case step c ws of Inl e \<Rightarrow> Inl e | Inr ws' \<Rightarrow> run cs ws')"

text \<open>
  A call ends the unit of work when it is the outermost commit, the \<^verbatim>\<open>endUnitOfWork\<close>
  that brings the depth to 0, or \<^verbatim>\<open>commitAndRestart\<close>.
\<close>

definition ends_unit_of_work :: "call \<Rightarrow> RocksRecoveryUnit \<Rightarrow> bool" where
  "ends_unit_of_work c s =
     (case c of
        Call_commitUnitOfWork \<Rightarrow> ru_depth s \<le> 1
      | Call_endUnitOfWork \<Rightarrow> ru_depth s - 1 = 0
      | Call_commitAndRestart \<Rightarrow> True
      | _ \<Rightarrow> False)"

subsection \<open>Reading a trace\<close>

text \<open>
  The calls that acquire a snapshot (the ordering token of the conflict tracker and the
  handle of the store), and the snapshots that the reads of a trace were scoped to.
\<close>

fun is_acquisition :: "event \<Rightarrow> bool" where
  "is_acquisition TxnRecordSnapshotId = True"
| "is_acquisition (DbGetSnapshot h) = True"
| "is_acquisition e = False"

definition acquisitions :: "event list \<Rightarrow> event list" where
  "acquisitions t = filter is_acquisition t"

fun read_snapshots :: "event list \<Rightarrow> snap option list" where
  "read_snapshots [] = []"
| "read_snapshots (DbGet opts c k # t) = ro_snapshot opts # read_snapshots t"
| "read_snapshots (DbNewIterator opts c # t) = ro_snapshot opts # read_snapshots t"
| "read_snapshots (e # t) = read_snapshots t"

fun is_change_event :: "event \<Rightarrow> bool" where
  "is_change_event (ChangeCommit c) = True"
| "is_change_event (ChangeRollback c) = True"
| "is_change_event e = False"

text \<open>
  What the loop of \<^verbatim>\<open>_commit\<close> leaves in the shared counters and appends to the write
  buffer, as functions of the counter deltas: used to state what a commit writes.
\<close>

fun counter_adds :: "(bytes \<times> Counter) list \<Rightarrow> (addr \<Rightarrow> 64 word) \<Rightarrow> (addr \<Rightarrow> 64 word)" where
  "counter_adds [] cs = cs"
| "counter_adds ((k, c) # rest) cs =
     counter_adds rest (cs(counter_value c := cs (counter_value c) + counter_delta c))"

fun counter_puts :: "(bytes \<times> Counter) list \<Rightarrow> (addr \<Rightarrow> 64 word) \<Rightarrow> WriteBatchWithIndex" where
  "counter_puts [] cs = []"
| "counter_puts ((k, c) # rest) cs =
     (0, WriteEntry kPutRecord k (encode_longlong (cs (counter_value c) + counter_delta c)))
       # counter_puts rest (cs(counter_value c := cs (counter_value c) + counter_delta c))"

definition write_events :: "world \<Rightarrow> RocksRecoveryUnit \<Rightarrow> event list" where
  "write_events w s =
     (case ru_writeBatch s of
        None \<Rightarrow> []
      | Some b \<Rightarrow>
          if b @ counter_puts (ru_deltaCounters s) (counters w) = [] then []
          else [DbWrite WriteOptions_default
                  (b @ counter_puts (ru_deltaCounters s) (counters w)), TxnCommit])"

definition release_events :: "RocksRecoveryUnit \<Rightarrow> event list" where
  "release_events s = (case ru_snapshot s of None \<Rightarrow> [] | Some h \<Rightarrow> [DbReleaseSnapshot h])"

text \<open>
  The latest operation of a write buffer on a key of a column family, in the words of the
  specification: the record on that key that was appended last.
\<close>

fun latest_op :: "cf \<Rightarrow> bytes \<Rightarrow> WriteBatchWithIndex \<Rightarrow> WriteEntry option" where
  "latest_op c k [] = None"
| "latest_op c k ((c', e) # b) =
     (case latest_op c k b of
        Some e' \<Rightarrow> Some e'
      | None \<Rightarrow> if c' = c \<and> ekey e = k then Some e else None)"

text \<open>
  The snapshot discipline of one call that appended the events \<open>ev\<close> to the trace and took
  the unit from \<open>s\<close> to \<open>s'\<close>. With no snapshot held, the call either acquires nothing and
  reads nothing from the store, or it starts by asking the conflict tracker for the ordering
  token and then the store for the handle \<open>h\<close>, which the unit then holds and which every
  read of the call is scoped to. With the handle \<open>h\<close> held, the call acquires nothing, scopes
  every read to \<open>h\<close>, and the unit still holds \<open>h\<close>, unless the call ends the unit of work:
  then the unit holds no snapshot.
\<close>

definition snapshot_discipline ::
  "call \<Rightarrow> RocksRecoveryUnit \<Rightarrow> RocksRecoveryUnit \<Rightarrow> event list \<Rightarrow> bool" where
  "snapshot_discipline c s s' ev =
     (case ru_snapshot s of
        None \<Rightarrow>
          (acquisitions ev = [] \<and> read_snapshots ev = [] \<and> ru_snapshot s' = None) \<or>
          (\<exists>h rest. ev = TxnRecordSnapshotId # DbGetSnapshot h # rest \<and>
             acquisitions rest = [] \<and> set (read_snapshots rest) \<subseteq> {Some h} \<and>
             ru_snapshot s' = Some h)
      | Some h \<Rightarrow>
          acquisitions ev = [] \<and> set (read_snapshots ev) \<subseteq> {Some h} \<and>
          (ru_snapshot s' = Some h \<or> ends_unit_of_work c s \<and> ru_snapshot s' = None))"

text \<open>
  A list of calls, made from \<open>ws\<close>, stays within the unit of work: none of them ends it.
\<close>

fun within_unit_of_work :: "call list \<Rightarrow> world \<times> RocksRecoveryUnit \<Rightarrow> bool" where
  "within_unit_of_work [] ws = True"
| "within_unit_of_work (c # cs) ws =
     (if ends_unit_of_work c (snd ws) then False
      else (case step c ws of Inl e \<Rightarrow> True | Inr ws' \<Rightarrow> within_unit_of_work cs ws'))"

text \<open>
  The snapshot discipline of such a list of calls that appended the events \<open>ev\<close>. With no
  snapshot held at the start, either nothing is acquired, nothing is read and no snapshot is
  held at the end, or there is exactly one acquisition, the ordering token directly before
  the handle \<open>h\<close>, nothing is read before it, every read after it is scoped to \<open>h\<close> and
  \<open>h\<close> is held at the end. With \<open>h\<close> held at the start, nothing is acquired, every read
  is scoped to \<open>h\<close> and \<open>h\<close> is held at the end.
\<close>

definition run_discipline :: "RocksRecoveryUnit \<Rightarrow> RocksRecoveryUnit \<Rightarrow> event list \<Rightarrow> bool" where
  "run_discipline s s' ev =
     (case ru_snapshot s of
        None \<Rightarrow>
          (acquisitions ev = [] \<and> read_snapshots ev = [] \<and> ru_snapshot s' = None) \<or>
          (\<exists>h before rest. ev = before @ TxnRecordSnapshotId # DbGetSnapshot h # rest \<and>
             acquisitions before = [] \<and> read_snapshots before = [] \<and>
             acquisitions rest = [] \<and> set (read_snapshots rest) \<subseteq> {Some h} \<and>
             ru_snapshot s' = Some h)
      | Some h \<Rightarrow>
          acquisitions ev = [] \<and> set (read_snapshots ev) \<subseteq> {Some h} \<and>
          ru_snapshot s' = Some h)"


text \<open>
  The unit has something to write at a commit: it has a write buffer, and the buffer holds
  an operation or will hold one once the counter deltas are flushed into it.
\<close>

definition has_pending_writes :: "RocksRecoveryUnit \<Rightarrow> bool" where
  "has_pending_writes s =
     (case ru_writeBatch s of
        None \<Rightarrow> False
      | Some b \<Rightarrow> if b = [] then ru_deltaCounters s \<noteq> [] else True)"

text \<open>A world to run examples in: an empty store that accepts writes, counters at 0.\<close>

definition world0 :: world where
  "world0 =
     \<lparr>db = \<lparr>db_data = Map.empty, db_snapshots = Map.empty, db_nextSnapshot = 0,
            db_writeFails = False\<rparr>,
      counters = (\<lambda>a. 0), trace = []\<rparr>"

text \<open>
  Example units: one that has just begun a unit of work, one with a buffered put, one with
  the counter ''x'' incremented by 3 and by 2; the world after the unit with the put has
  committed; the world and the unit after the fresh unit has made its first read.
\<close>

definition unit_fresh :: RocksRecoveryUnit where
  "unit_fresh = beginUnitOfWork (new_RocksRecoveryUnit True)"

definition unit_put :: RocksRecoveryUnit where
  "unit_put = writeBatch_Put 1 ''k'' ''v'' unit_fresh"

definition unit_x5 :: RocksRecoveryUnit where
  "unit_x5 = incrementCounter ''x'' 0 2 (incrementCounter ''x'' 0 3 unit_fresh)"

definition world_put :: world where
  "world_put =
     world0\<lparr>db := (db world0)\<lparr>db_data := [(1, ''k'') \<mapsto> ''v'']\<rparr>,
            trace := [DbWrite WriteOptions_default [(1, WriteEntry kPutRecord ''k'' ''v'')],
                      TxnCommit]\<rparr>"

definition world_read :: world where
  "world_read = fst (snd (Get 1 ''k'' world0 unit_fresh))"

definition unit_read :: RocksRecoveryUnit where
  "unit_read = snd (snd (Get 1 ''k'' world0 unit_fresh))"

definition world_read2 :: world where
  "world_read2 = fst (snd (Get 1 ''k'' world_read unit_read))"

definition unit_read2 :: RocksRecoveryUnit where
  "unit_read2 = snd (snd (Get 1 ''k'' world_read unit_read))"

section \<open>Properties\<close>

subsection \<open>What the operations compute\<close>

lemma foldl_emit: "foldl (\<lambda>w' c. emit (f c) w') w cs = w\<lparr>trace := trace w @ map f cs\<rparr>"
  by (induction cs arbitrary: w) (simp_all add: emit_def)

lemma flushCounters_eq:
  "ru_writeBatch s = Some b \<Longrightarrow>
   flushCounters xs w s =
     (w\<lparr>counters := counter_adds xs (counters w)\<rparr>,
      s\<lparr>ru_writeBatch := Some (b @ counter_puts xs (counters w))\<rparr>)"
proof (induction xs arbitrary: w s b)
  case Nil
  then show ?case by simp
next
  case (Cons x xs)
  obtain k c where x: "x = (k, c)" by (cases x)
  show ?case using Cons.prems
    by (simp add: x Let_def writeBatch_Put_def writeBatch_def wb_Put_def Cons.IH)
qed

lemma ru_commit_eq:
  "ru_writeBatch s = Some b \<Longrightarrow>
   ru_commit w s =
     (if b @ counter_puts (ru_deltaCounters s) (counters w) = []
      then Inr (w\<lparr>counters := counter_adds (ru_deltaCounters s) (counters w)\<rparr>,
                s\<lparr>ru_deltaCounters := [], ru_writeBatch := None\<rparr>)
      else if db_writeFails (db w)
      then Inl (InvariantFailure ''rocks write batch commit failed'')
      else Inr (w\<lparr>counters := counter_adds (ru_deltaCounters s) (counters w),
                  db := (db w)\<lparr>db_data :=
                     apply_batch (b @ counter_puts (ru_deltaCounters s) (counters w))
                       (db_data (db w))\<rparr>,
                  trace := trace w @
                     [DbWrite WriteOptions_default
                        (b @ counter_puts (ru_deltaCounters s) (counters w)),
                      TxnCommit]\<rparr>,
                s\<lparr>ru_deltaCounters := [], ru_writeBatch := None\<rparr>))"
  by (simp add: ru_commit_def flushCounters_eq Count_def db_Write_def emit_def Let_def)

lemma releaseSnapshot_trace:
  "trace (fst (releaseSnapshot w s)) = trace w @ release_events s"
  by (simp add: releaseSnapshot_def release_events_def emit_def split: option.splits)

lemma releaseSnapshot_unit:
  "snd (releaseSnapshot w s) = s\<lparr>ru_snapshot := None\<rparr>"
  by (simp add: releaseSnapshot_def split: option.splits)

lemma releaseSnapshot_counters:
  "counters (fst (releaseSnapshot w s)) = counters w"
  by (simp add: releaseSnapshot_def emit_def split: option.splits)

lemma releaseSnapshot_data:
  "db_data (db (fst (releaseSnapshot w s))) = db_data (db w)"
  by (simp add: releaseSnapshot_def emit_def db_ReleaseSnapshot_def split: option.splits)

lemma commitUnitOfWork_nested:
  "1 < ru_depth s \<Longrightarrow> commitUnitOfWork w s = Inr (w, s)"
  by (simp add: commitUnitOfWork_def)

lemma commitUnitOfWork_no_batch:
  "ru_depth s \<le> 1 \<Longrightarrow> ru_writeBatch s = None \<Longrightarrow>
   commitUnitOfWork w s =
     Inr (releaseSnapshot (w\<lparr>trace := trace w @ map ChangeCommit (ru_changes s)\<rparr>)
            (s\<lparr>ru_changes := []\<rparr>))"
  by (simp add: commitUnitOfWork_def foldl_emit)

lemma commitUnitOfWork_eq:
  "ru_depth s \<le> 1 \<Longrightarrow>
   commitUnitOfWork w s =
     (case (if ru_writeBatch s \<noteq> None then ru_commit w s else Inr (w, s)) of
        Inl e \<Rightarrow> Inl e
      | Inr (w1, s1) \<Rightarrow>
          Inr (releaseSnapshot (w1\<lparr>trace := trace w1 @ map ChangeCommit (ru_changes s1)\<rparr>)
                 (s1\<lparr>ru_changes := []\<rparr>)))"
  by (simp add: commitUnitOfWork_def foldl_emit Let_def split: sum.splits)

lemma commitUnitOfWork_trace:
  assumes "commitUnitOfWork w s = Inr (w', s')" and "ru_depth s \<le> 1"
  shows "trace w' =
    trace w @ write_events w s @ map ChangeCommit (ru_changes s) @ release_events s"
proof (cases "ru_writeBatch s")
  case None
  with assms have "w' =
      fst (releaseSnapshot (w\<lparr>trace := trace w @ map ChangeCommit (ru_changes s)\<rparr>)
            (s\<lparr>ru_changes := []\<rparr>))"
    by (simp add: commitUnitOfWork_no_batch)
  then show ?thesis using None
    by (simp add: releaseSnapshot_trace write_events_def release_events_def)
next
  case (Some b)
  with assms obtain w1 s1 where c: "ru_commit w s = Inr (w1, s1)"
    and r: "w' =
      fst (releaseSnapshot (w1\<lparr>trace := trace w1 @ map ChangeCommit (ru_changes s1)\<rparr>)
             (s1\<lparr>ru_changes := []\<rparr>))"
    by (auto simp: commitUnitOfWork_eq split: sum.splits)
  from c Some have "trace w1 = trace w @ write_events w s" and "ru_changes s1 = ru_changes s"
    and "ru_snapshot s1 = ru_snapshot s"
    by (auto simp: ru_commit_eq write_events_def split: if_splits)
  with r show ?thesis
    by (simp add: releaseSnapshot_trace release_events_def)
qed

lemma commitUnitOfWork_unit:
  assumes "commitUnitOfWork w s = Inr (w', s')" and "ru_depth s \<le> 1"
  shows "s' = (if ru_writeBatch s = None
               then s\<lparr>ru_changes := [], ru_snapshot := None\<rparr>
               else s\<lparr>ru_changes := [], ru_snapshot := None, ru_deltaCounters := [],
                       ru_writeBatch := None\<rparr>)"
proof (cases "ru_writeBatch s")
  case None
  with assms have "s' =
      snd (releaseSnapshot (w\<lparr>trace := trace w @ map ChangeCommit (ru_changes s)\<rparr>)
            (s\<lparr>ru_changes := []\<rparr>))"
    by (simp add: commitUnitOfWork_no_batch)
  with None show ?thesis
    by (simp add: releaseSnapshot_unit)
next
  case (Some b)
  with assms obtain w1 s1 where c: "ru_commit w s = Inr (w1, s1)"
    and r: "s' =
      snd (releaseSnapshot (w1\<lparr>trace := trace w1 @ map ChangeCommit (ru_changes s1)\<rparr>)
             (s1\<lparr>ru_changes := []\<rparr>))"
    by (auto simp: commitUnitOfWork_eq split: sum.splits)
  from c Some have "s1 = s\<lparr>ru_deltaCounters := [], ru_writeBatch := None\<rparr>"
    by (auto simp: ru_commit_eq split: if_splits)
  with r Some show ?thesis
    by (simp add: releaseSnapshot_unit)
qed

lemma commitUnitOfWork_returns:
  "\<not> db_writeFails (db w) \<Longrightarrow> \<exists>w' s'. commitUnitOfWork w s = Inr (w', s')"
  by (cases "ru_writeBatch s")
     (auto simp: commitUnitOfWork_def ru_commit_eq Let_def split: prod.splits)

lemma ru_abort_eq:
  "ru_abort w s =
     releaseSnapshot
       (w\<lparr>trace := trace w @ map ChangeRollback (rev (ru_changes s)) @ [TxnAbort]\<rparr>)
       (s\<lparr>ru_changes := [], ru_deltaCounters := [], ru_writeBatch := None\<rparr>)"
  by (simp add: ru_abort_def foldl_emit Let_def) (simp add: emit_def)

lemmas unit_simps =
  new_RocksRecoveryUnit_def beginUnitOfWork_def writeBatch_def writeBatch_Put_def
  writeBatch_Delete_def registerChange_def setOplogReadTill_def incrementCounter_def
  getDeltaCounter_def
  wb_Put_def wb_Delete_def Count_def

lemmas world_simps =
  world0_def emit_def db_Write_def db_GetSnapshot_def db_ReleaseSnapshot_def db_Get_def
  db_view_def WriteOptions_default_def ReadOptions_default_def DefaultColumnFamily_def

lemmas example_simps = unit_fresh_def unit_put_def unit_x5_def world_put_def

lemma commit_unit_put: "commitUnitOfWork world0 unit_put = Inr (world_put, unit_fresh)"
  by (simp add: commitUnitOfWork_def ru_commit_def releaseSnapshot_def example_simps
      unit_simps world_simps)

lemma commit_unit_x5: "commitUnitOfWork world0 unit_x5 = Inr (world0, unit_x5)"
  by (simp add: commitUnitOfWork_def releaseSnapshot_def example_simps unit_simps world_simps)

lemma first_read:
  "Get 1 ''k'' world0 unit_fresh =
     ((NotFound, None),
      world0\<lparr>db := (db world0)\<lparr>db_snapshots := [0 \<mapsto> Map.empty], db_nextSnapshot := 1\<rparr>,
             trace := [TxnRecordSnapshotId, DbGetSnapshot 0, DbGet \<lparr>ro_snapshot = Some 0\<rparr> 1 ''k'']\<rparr>,
      unit_fresh\<lparr>ru_snapshot := Some 0\<rparr>)"
  by (simp add: Get_def probe_def snapshot_def example_simps unit_simps world_simps Let_def)

subsection \<open>Snapshots\<close>

lemma read_snapshots_append: "read_snapshots (a @ b) = read_snapshots a @ read_snapshots b"
  by (induction a rule: read_snapshots.induct) simp_all

lemma quiet_write_events:
  "acquisitions (write_events w s) = []" "read_snapshots (write_events w s) = []"
  by (simp_all add: write_events_def acquisitions_def split: option.splits)

lemma quiet_release_events:
  "acquisitions (release_events s) = []" "read_snapshots (release_events s) = []"
  by (simp_all add: release_events_def acquisitions_def split: option.splits)

lemma quiet_ChangeCommit:
  "acquisitions (map ChangeCommit cs) = []" "read_snapshots (map ChangeCommit cs) = []"
  by (induction cs) (simp_all add: acquisitions_def)

lemma quiet_ChangeRollback:
  "acquisitions (map ChangeRollback cs) = []" "read_snapshots (map ChangeRollback cs) = []"
  by (induction cs) (simp_all add: acquisitions_def)

lemma acquisitions_simps:
  "acquisitions [] = []"
  "acquisitions (e # t) = (if is_acquisition e then e # acquisitions t else acquisitions t)"
  by (simp_all add: acquisitions_def)

lemma acquisitions_append: "acquisitions (a @ b) = acquisitions a @ acquisitions b"
  by (simp add: acquisitions_def)

lemmas quiet = acquisitions_simps read_snapshots_append acquisitions_append quiet_write_events
  quiet_release_events quiet_ChangeCommit quiet_ChangeRollback

lemma commit_discipline:
  assumes "commitUnitOfWork w s = Inr (w', s')"
    and "c = Call_commitUnitOfWork \<or> c = Call_commitAndRestart"
  shows "\<exists>ev. trace w' = trace w @ ev \<and> snapshot_discipline c s s' ev"
proof (cases "1 < ru_depth s")
  case True
  with assms have "w' = w" "s' = s" by (simp_all add: commitUnitOfWork_nested)
  then show ?thesis
    by (auto simp: snapshot_discipline_def quiet split: option.splits)
next
  case False
  then have d: "ru_depth s \<le> 1" by simp
  with assms(2) have e: "ends_unit_of_work c s"
    by (auto simp: ends_unit_of_work_def)
  from commitUnitOfWork_trace [OF assms(1) d] commitUnitOfWork_unit [OF assms(1) d] e
  show ?thesis
    by (auto simp: snapshot_discipline_def quiet split: option.splits)
qed

lemma snapshot_eq:
  "snapshot w s =
     (case ru_snapshot s of
        None \<Rightarrow>
          (db_nextSnapshot (db w),
           w\<lparr>db := snd (db_GetSnapshot (db w)),
             trace := trace w @ [TxnRecordSnapshotId, DbGetSnapshot (db_nextSnapshot (db w))]\<rparr>,
           s\<lparr>ru_snapshot := Some (db_nextSnapshot (db w))\<rparr>)
      | Some h \<Rightarrow> (h, w, s))"
  by (simp add: snapshot_def emit_def db_GetSnapshot_def Let_def split: option.splits)

lemma snapshot_store:
  "snapshot w s =
     (case ru_snapshot s of
        None \<Rightarrow>
          (fst (db_GetSnapshot (db w)),
           w\<lparr>db := snd (db_GetSnapshot (db w)),
             trace := trace w @
               [TxnRecordSnapshotId, DbGetSnapshot (fst (db_GetSnapshot (db w)))]\<rparr>,
           s\<lparr>ru_snapshot := Some (fst (db_GetSnapshot (db w)))\<rparr>)
      | Some h \<Rightarrow> (h, w, s))"
  by (simp add: snapshot_def emit_def Let_def split: option.splits)

lemma NewIterator_eq:
  "c \<noteq> DefaultColumnFamily (db w) \<Longrightarrow>
   NewIterator c w s =
     (case ru_snapshot s of
        None \<Rightarrow>
          Inr (case ru_writeBatch s of
                 None \<Rightarrow> DbIterator \<lparr>ro_snapshot = Some (fst (db_GetSnapshot (db w)))\<rparr> c
               | Some b \<Rightarrow>
                   if Count b > 0
                   then WithBase c b
                          (DbIterator \<lparr>ro_snapshot = Some (fst (db_GetSnapshot (db w)))\<rparr> c)
                   else DbIterator \<lparr>ro_snapshot = Some (fst (db_GetSnapshot (db w)))\<rparr> c,
               w\<lparr>db := snd (db_GetSnapshot (db w)),
                 trace := trace w @
                   [TxnRecordSnapshotId, DbGetSnapshot (fst (db_GetSnapshot (db w))),
                    DbNewIterator \<lparr>ro_snapshot = Some (fst (db_GetSnapshot (db w)))\<rparr> c]\<rparr>,
               s\<lparr>ru_snapshot := Some (fst (db_GetSnapshot (db w)))\<rparr>)
      | Some h \<Rightarrow>
          Inr (case ru_writeBatch s of
                 None \<Rightarrow> DbIterator \<lparr>ro_snapshot = Some h\<rparr> c
               | Some b \<Rightarrow>
                   if Count b > 0 then WithBase c b (DbIterator \<lparr>ro_snapshot = Some h\<rparr> c)
                   else DbIterator \<lparr>ro_snapshot = Some h\<rparr> c,
               w\<lparr>trace := trace w @ [DbNewIterator \<lparr>ro_snapshot = Some h\<rparr> c]\<rparr>,
               s))"
  by (simp add: NewIterator_def snapshot_store emit_def ReadOptions_default_def Let_def
      DefaultColumnFamily_def split: option.splits)

lemma Get_miss_eq:
  "probe s c k = None \<Longrightarrow>
   Get c k w s =
     (case ru_snapshot s of
        None \<Rightarrow>
          (db_Get \<lparr>ro_snapshot = Some (fst (db_GetSnapshot (db w)))\<rparr> c k
             (snd (db_GetSnapshot (db w))),
           w\<lparr>db := snd (db_GetSnapshot (db w)),
             trace := trace w @
               [TxnRecordSnapshotId, DbGetSnapshot (fst (db_GetSnapshot (db w))),
                DbGet \<lparr>ro_snapshot = Some (fst (db_GetSnapshot (db w)))\<rparr> c k]\<rparr>,
           s\<lparr>ru_snapshot := Some (fst (db_GetSnapshot (db w)))\<rparr>)
      | Some h \<Rightarrow>
          (db_Get \<lparr>ro_snapshot = Some h\<rparr> c k (db w),
           w\<lparr>trace := trace w @ [DbGet \<lparr>ro_snapshot = Some h\<rparr> c k]\<rparr>,
           s))"
  by (simp add: Get_def snapshot_store emit_def ReadOptions_default_def Let_def
      split: option.splits)

lemma Get_hit_eq: "probe s c k \<noteq> None \<Longrightarrow> snd (Get c k w s) = (w, s)"
  by (auto simp: Get_def)

lemma end_discipline:
  assumes "endUnitOfWork w s = (w', s')"
  shows "\<exists>ev. trace w' = trace w @ ev \<and> snapshot_discipline Call_endUnitOfWork s s' ev"
proof (cases "ru_depth s - 1 = 0")
  case True
  with assms have "w' = fst (ru_abort w (s\<lparr>ru_depth := ru_depth s - 1\<rparr>))"
    "s' = snd (ru_abort w (s\<lparr>ru_depth := ru_depth s - 1\<rparr>))"
    by (simp_all add: endUnitOfWork_def)
  then have "trace w' = trace w @ map ChangeRollback (rev (ru_changes s)) @ [TxnAbort] @ release_events s"
    "ru_snapshot s' = None"
    by (simp_all add: ru_abort_eq releaseSnapshot_trace releaseSnapshot_unit release_events_def)
  with True show ?thesis
    by (auto simp: snapshot_discipline_def quiet ends_unit_of_work_def split: option.splits)
next
  case False
  with assms have "w' = w" "s' = s\<lparr>ru_depth := ru_depth s - 1\<rparr>"
    by (simp_all add: endUnitOfWork_def)
  then show ?thesis
    by (auto simp: snapshot_discipline_def quiet split: option.splits)
qed

lemma Get_discipline:
  assumes "snd (Get c k w s) = (w', s')"
  shows "\<exists>ev. trace w' = trace w @ ev \<and> snapshot_discipline (Call_Get c k) s s' ev"
  using assms
  by (auto simp: Get_def snapshot_eq snapshot_discipline_def quiet emit_def
      ReadOptions_default_def Let_def split: option.splits if_splits)

lemma NewIterator_discipline:
  assumes "NewIterator c w s = Inr (it, w', s')"
  shows "\<exists>ev. trace w' = trace w @ ev \<and> snapshot_discipline (Call_NewIterator c) s s' ev"
  using assms
  by (auto simp: NewIterator_def snapshot_eq snapshot_discipline_def quiet emit_def
      ReadOptions_default_def Let_def split: option.splits if_splits)

lemma snapshot_call_discipline:
  assumes "snd (snapshot w s) = (w', s')"
  shows "\<exists>ev. trace w' = trace w @ ev \<and> snapshot_discipline Call_snapshot s s' ev"
  using assms
  by (auto simp: snapshot_eq snapshot_discipline_def quiet split: option.splits)

lemma quiet_discipline:
  "ru_snapshot s' = ru_snapshot s \<Longrightarrow> snapshot_discipline c s s' []"
  by (simp add: snapshot_discipline_def quiet split: option.splits)

lemma step_snapshot_discipline:
  assumes "step c (w, s) = Inr (w', s')"
  shows "\<exists>ev. trace w' = trace w @ ev \<and> snapshot_discipline c s s' ev"
proof (cases c)
  case Call_commitUnitOfWork
  with assms show ?thesis by (simp add: commit_discipline)
next
  case Call_endUnitOfWork
  with assms show ?thesis by (simp add: end_discipline)
next
  case Call_commitAndRestart
  with assms have "commitUnitOfWork w s = Inr (w', s')"
    by (simp add: commitAndRestart_def split: if_splits)
  from commit_discipline [OF this] Call_commitAndRestart show ?thesis
    by simp
next
  case (Call_Get c k)
  with assms show ?thesis by (simp add: Get_discipline)
next
  case (Call_NewIterator c)
  with assms obtain it where "NewIterator c w s = Inr (it, w', s')"
    by (cases "NewIterator c w s") auto
  with Call_NewIterator show ?thesis by (simp add: NewIterator_discipline)
next
  case Call_snapshot
  with assms show ?thesis by (simp add: snapshot_call_discipline)
qed (use assms in \<open>auto simp: quiet_discipline unit_simps Let_def split: option.splits\<close>)

lemma run_snapshot_discipline:
  "run cs (w, s) = Inr (w', s') \<Longrightarrow> within_unit_of_work cs (w, s) \<Longrightarrow>
   \<exists>ev. trace w' = trace w @ ev \<and> run_discipline s s' ev"
proof (induction cs arbitrary: w s)
  case Nil
  then show ?case
    by (auto simp: run_discipline_def acquisitions_simps split: option.splits)
next
  case (Cons c cs)
  from Cons.prems obtain w1 s1 where st: "step c (w, s) = Inr (w1, s1)"
    and rn: "run cs (w1, s1) = Inr (w', s')"
    and ne: "\<not> ends_unit_of_work c s"
    and wi: "within_unit_of_work cs (w1, s1)"
    by (auto split: sum.splits if_splits)
  from step_snapshot_discipline [OF st] obtain ev1
    where t1: "trace w1 = trace w @ ev1" and d1: "snapshot_discipline c s s1 ev1" by blast
  from Cons.IH [OF rn wi] obtain ev2
    where t2: "trace w' = trace w1 @ ev2" and d2: "run_discipline s1 s' ev2" by blast
  have "run_discipline s s' (ev1 @ ev2)"
  proof (cases "ru_snapshot s")
    case (Some h)
    with d1 ne d2 show ?thesis
      by (auto simp: snapshot_discipline_def run_discipline_def quiet)
  next
    case None
    with d1 consider
      (q) "acquisitions ev1 = []" "read_snapshots ev1 = []" "ru_snapshot s1 = None"
      | (a) h rest where "ev1 = TxnRecordSnapshotId # DbGetSnapshot h # rest"
        "acquisitions rest = []" "set (read_snapshots rest) \<subseteq> {Some h}" "ru_snapshot s1 = Some h"
      by (auto simp: snapshot_discipline_def)
    then show ?thesis
    proof cases
      case q
      from d2 q(3) consider
        (q2) "acquisitions ev2 = []" "read_snapshots ev2 = []" "ru_snapshot s' = None"
        | (a2) h before rest where "ev2 = before @ TxnRecordSnapshotId # DbGetSnapshot h # rest"
          "acquisitions before = []" "read_snapshots before = []"
          "acquisitions rest = []" "set (read_snapshots rest) \<subseteq> {Some h}"
          "ru_snapshot s' = Some h"
        by (auto simp: run_discipline_def)
      then show ?thesis
      proof cases
        case q2
        with q None show ?thesis by (simp add: run_discipline_def quiet)
      next
        case a2
        have "ev1 @ ev2 = (ev1 @ before) @ TxnRecordSnapshotId # DbGetSnapshot h # rest"
          by (simp add: a2(1))
        moreover have "acquisitions (ev1 @ before) = []" "read_snapshots (ev1 @ before) = []"
          using q a2 by (simp_all add: quiet)
        ultimately show ?thesis using None a2
          unfolding run_discipline_def by (simp only: option.case) blast
      qed
    next
      case a
      have "ev1 @ ev2 = [] @ TxnRecordSnapshotId # DbGetSnapshot h # (rest @ ev2)"
        by (simp add: a(1))
      moreover have "acquisitions (rest @ ev2) = []"
        "set (read_snapshots (rest @ ev2)) \<subseteq> {Some h}" "ru_snapshot s' = Some h"
        using a d2 by (auto simp: run_discipline_def quiet)
      moreover have "acquisitions [] = []" "read_snapshots [] = []" by (simp_all add: quiet)
      ultimately show ?thesis using None
        unfolding run_discipline_def by (simp only: option.case) blast
    qed
  qed
  with t1 t2 show ?case by auto
qed

subsection \<open>Counters and batches\<close>

lemma map_of_snoc_fresh:
  "map_of xs k = None \<Longrightarrow> map_of (xs @ [(k, v)]) k = Some v"
  by (induction xs) (auto split: if_splits)

lemma update_snoc_fresh:
  "map_of xs k = None \<Longrightarrow> AList.update k v (xs @ [(k, v0)]) = xs @ [(k, v)]"
  by (induction xs) (auto split: if_splits)

lemma incrementCounter_3_2:
  assumes "map_of (ru_deltaCounters s) k = None"
  shows "incrementCounter k a 2 (incrementCounter k a 3 s) =
           s\<lparr>ru_deltaCounters := ru_deltaCounters s @ [(k, Counter a 5)]\<rparr>"
proof -
  have 1: "incrementCounter k a 3 s =
      s\<lparr>ru_deltaCounters := ru_deltaCounters s @ [(k, Counter a 3)]\<rparr>"
    using assms by (simp add: incrementCounter_def)
  have 2: "map_of (ru_deltaCounters s @ [(k, Counter a 3)]) k = Some (Counter a 3)"
    using assms by (rule map_of_snoc_fresh)
  show ?thesis
    unfolding 1 using assms 2
    by (simp add: incrementCounter_def update_snoc_fresh del: map_of_append)
qed

lemma counter_adds_append:
  "counter_adds (xs @ ys) cs = counter_adds ys (counter_adds xs cs)"
  by (induction xs arbitrary: cs) auto

lemma counter_puts_append:
  "counter_puts (xs @ ys) cs = counter_puts xs cs @ counter_puts ys (counter_adds xs cs)"
  by (induction xs arbitrary: cs) auto

lemma counter_adds_other:
  "\<forall>p\<in>set xs. counter_value (snd p) \<noteq> a \<Longrightarrow> counter_adds xs cs a = cs a"
  by (induction xs arbitrary: cs) auto

lemma apply_batch_append: "apply_batch (a @ b) t = apply_batch b (apply_batch a t)"
  by (induction a arbitrary: t) auto

lemma counter_puts_keys: "map (ekey \<circ> snd) (counter_puts xs cs) = map fst xs"
  by (induction xs arbitrary: cs) auto

lemma counter_puts_length: "length (counter_puts xs cs) = length xs"
  by (induction xs arbitrary: cs) auto

lemma counter_puts_kind:
  "p \<in> set (counter_puts xs cs) \<Longrightarrow> fst p = 0 \<and> etype (snd p) = kPutRecord"
  by (induction xs arbitrary: cs) auto

lemma counter_puts_records:
  assumes "p \<in> set (counter_puts xs cs)"
  shows "fst p = 0 \<and> etype (snd p) = kPutRecord \<and> ekey (snd p) \<in> fst ` set xs"
proof -
  from assms have "(ekey \<circ> snd) p \<in> set (map (ekey \<circ> snd) (counter_puts xs cs))"
    by (simp del: map_map)
  then have "ekey (snd p) \<in> fst ` set xs"
    by (simp add: counter_puts_keys)
  with counter_puts_kind [OF assms] show ?thesis by simp
qed

lemma counter_puts_Nil: "counter_puts xs cs = [] \<longleftrightarrow> xs = []"
  by (cases xs) auto

lemma of_char_byte: "(of_nat (of_char (char_of (unat (y :: 64 word)))) :: 64 word) = take_bit 8 y"
proof -
  have "(of_char (char_of (unat y)) :: nat) = take_bit 8 (unat y)"
    by (simp add: take_bit_eq_mod)
  then show ?thesis
    by (simp add: unsigned_take_bit_eq [symmetric] del: of_char_of)
qed

lemma encode_bytes_Suc:
  "map (\<lambda>i. char_of (unat (drop_bit (8 * i) x))) [0..<Suc n] =
     char_of (unat (x :: 64 word)) # map (\<lambda>i. char_of (unat (drop_bit (8 * i) (drop_bit 8 x)))) [0..<n]"
  by (simp add: map_upt_Suc add.commute del: upt_Suc)

lemma join_byte:
  "take_bit 8 (x :: 64 word) OR push_bit 8 (take_bit (8 * n) (drop_bit 8 x)) = take_bit (8 * Suc n) x"
  by (rule bit_word_eqI) (auto simp: bit_simps)

lemma decode_bytes:
  "decode_longlong (map (\<lambda>i. char_of (unat (drop_bit (8 * i) x))) [0..<n]) = take_bit (8 * n) x"
proof (induction n arbitrary: x)
  case 0
  then show ?case by (simp add: decode_longlong_def)
next
  case (Suc n)
  have "decode_longlong (map (\<lambda>i. char_of (unat (drop_bit (8 * i) x))) [0..<Suc n]) =
     take_bit 8 x OR push_bit 8 (take_bit (8 * n) (drop_bit 8 x))"
    unfolding encode_bytes_Suc
    using Suc.IH [of "drop_bit 8 x"]
    by (simp add: decode_longlong_def of_char_byte del: of_char_of)
  then show ?case by (simp only: join_byte)
qed

lemma decode_encode: "decode_longlong (encode_longlong x) = x"
  using decode_bytes [of x 8] by (simp add: encode_longlong_def take_bit_word_eq_self)

subsection \<open>Clearing the buffer and the deltas\<close>








lemma count_ChangeCommit: "count_list (map ChangeCommit cs) TxnCommit = 0"
  by (induction cs) simp_all

lemma count_release: "count_list (release_events s) TxnCommit = 0"
  by (simp add: release_events_def split: option.splits)

lemma write_events_pending:
  "write_events w s =
     (if has_pending_writes s
      then [DbWrite WriteOptions_default
              (the (ru_writeBatch s) @ counter_puts (ru_deltaCounters s) (counters w)), TxnCommit]
      else [])"
  by (auto simp: write_events_def has_pending_writes_def counter_puts_Nil split: option.splits)

lemma commit_data:
  assumes "commitUnitOfWork w s = Inr (w', s')" and "ru_depth s \<le> 1"
    and "ru_writeBatch s = Some b"
    and "b @ counter_puts (ru_deltaCounters s) (counters w) \<noteq> []"
  shows "\<not> db_writeFails (db w) \<and>
         db_data (db w') =
           apply_batch (b @ counter_puts (ru_deltaCounters s) (counters w)) (db_data (db w))"
proof -
  from assms obtain w1 s1 where c: "ru_commit w s = Inr (w1, s1)"
    and r: "w' =
      fst (releaseSnapshot (w1\<lparr>trace := trace w1 @ map ChangeCommit (ru_changes s1)\<rparr>)
             (s1\<lparr>ru_changes := []\<rparr>))"
    by (auto simp: commitUnitOfWork_eq split: sum.splits)
  from c assms(3,4) have "\<not> db_writeFails (db w)"
    and "db_data (db w1) =
           apply_batch (b @ counter_puts (ru_deltaCounters s) (counters w)) (db_data (db w))"
    by (auto simp: ru_commit_eq split: if_splits)
  with r show ?thesis by (simp add: releaseSnapshot_data)
qed

subsection \<open>Changes\<close>

lemma registerChange_all:
  "ru_changes (foldl (\<lambda>s c. registerChange c s) s cs) = ru_changes s @ cs"
  by (induction cs arbitrary: s) (simp_all add: registerChange_def)

lemma changes_of_write_events: "filter is_change_event (write_events w s) = []"
  by (simp add: write_events_def split: option.splits)

lemma changes_of_release_events: "filter is_change_event (release_events s) = []"
  by (simp add: release_events_def split: option.splits)

lemma changes_of_ChangeCommit: "filter is_change_event (map ChangeCommit cs) = map ChangeCommit cs"
  by (induction cs) simp_all

lemma changes_of_ChangeRollback:
  "filter is_change_event (map ChangeRollback cs) = map ChangeRollback cs"
  by (induction cs) simp_all

lemma ru_abort_trace:
  "trace (fst (ru_abort w s)) =
     trace w @ map ChangeRollback (rev (ru_changes s)) @ [TxnAbort] @ release_events s"
  by (simp add: ru_abort_eq releaseSnapshot_trace release_events_def)

subsection \<open>The index of the write buffer\<close>

lemma index_insert_distinct:
  "distinct (map ekey idx) \<Longrightarrow> distinct (map ekey (index_insert e idx))"
  by (auto simp: index_insert_def distinct_map_filter)

lemma index_insert_find:
  "find (\<lambda>x. ekey x = k) (index_insert e idx) =
     (if ekey e = k then Some e else find (\<lambda>x. ekey x = k) idx)"
  by (induction idx) (auto simp: index_insert_def)

lemma wbwi_index_distinct:
  "distinct (map ekey idx) \<Longrightarrow> distinct (map ekey (wbwi_index c b idx))"
  by (induction c b idx rule: wbwi_index.induct) (simp_all add: index_insert_distinct)

lemma wbwi_index_find:
  "find (\<lambda>x. ekey x = k) (wbwi_index c b idx) =
     (case latest_op c k b of Some e \<Rightarrow> Some e | None \<Rightarrow> find (\<lambda>x. ekey x = k) idx)"
  by (induction c b idx rule: wbwi_index.induct)
     (auto simp: index_insert_find split: option.splits)

lemma wbwi_Seek_None: "wbwi_Seek idx t = None \<Longrightarrow> e \<in> set idx \<Longrightarrow> \<not> t \<le> ekey e"
  by (induction idx) (auto split: option.splits if_splits)

lemma wbwi_Seek_Some:
  "wbwi_Seek idx t = Some m \<Longrightarrow>
     m \<in> set idx \<and> t \<le> ekey m \<and> (\<forall>e\<in>set idx. t \<le> ekey e \<longrightarrow> ekey m \<le> ekey e)"
proof (induction idx arbitrary: m)
  case Nil
  then show ?case by simp
next
  case (Cons a idx)
  show ?case
  proof (cases "wbwi_Seek idx t")
    case None
    with Cons.prems wbwi_Seek_None [OF None] show ?thesis
      by (auto split: if_splits)
  next
    case (Some m')
    with Cons.prems Cons.IH [OF Some] show ?thesis
      by (auto split: if_splits)
  qed
qed

lemma find_key_unique:
  "distinct (map ekey idx) \<Longrightarrow> e \<in> set idx \<Longrightarrow> find (\<lambda>x. ekey x = ekey e) idx = Some e"
  by (induction idx) (auto simp: image_iff)

lemma find_key_None: "find (\<lambda>x. ekey x = k) idx = None \<longleftrightarrow> k \<notin> ekey ` set idx"
  by (auto simp: find_None_iff)

lemma Seek_exact:
  assumes "distinct (map ekey idx)"
  shows "(case wbwi_Seek idx k of None \<Rightarrow> None
          | Some e \<Rightarrow> if ekey e = k then Some e else None) = find (\<lambda>x. ekey x = k) idx"
proof (cases "find (\<lambda>x. ekey x = k) idx")
  case None
  then have nk: "k \<notin> ekey ` set idx" by (simp add: find_key_None)
  show ?thesis
  proof (cases "wbwi_Seek idx k")
    case None
    then show ?thesis using \<open>find _ idx = None\<close> by simp
  next
    case (Some m)
    with wbwi_Seek_Some [OF Some] nk have "ekey m \<noteq> k" by auto
    with Some None show ?thesis by simp
  qed
next
  case (Some e)
  then have e: "e \<in> set idx" "ekey e = k"
    by (auto simp: find_Some_iff in_set_conv_nth)
  show ?thesis
  proof (cases "wbwi_Seek idx k")
    case None
    from wbwi_Seek_None [OF None e(1)] e(2) show ?thesis by simp
  next
    case (Some m)
    from wbwi_Seek_Some [OF Some] e have m: "m \<in> set idx" "ekey m = k"
      by auto
    from find_key_unique [OF assms m(1)] m(2) Some show ?thesis by simp
  qed
qed

lemma probe_latest:
  "probe s c k = (case ru_writeBatch s of None \<Rightarrow> None | Some b \<Rightarrow> latest_op c k b)"
proof (cases "ru_writeBatch s")
  case None
  then show ?thesis by (simp add: probe_def)
next
  case (Some b)
  have "(case wbwi_Seek (wbwi_NewIterator c b) k of None \<Rightarrow> None
          | Some e \<Rightarrow> if ekey e = k then Some e else None) = latest_op c k b"
    using Seek_exact [of "wbwi_index c b []" k] wbwi_index_distinct [of "[]" c b]
          wbwi_index_find [of k c b "[]"]
    by (simp add: wbwi_NewIterator_def split: option.splits)
  moreover have "Count b = 0 \<Longrightarrow> latest_op c k b = None"
    by (simp add: Count_def)
  ultimately show ?thesis using Some
    by (auto simp: probe_def)
qed


subsection \<open>The claims\<close>

text \<open>
  C1. The claim: the durable flag decides whether the batch of a physical commit is written
  with the write-ahead log. The code does not do this. \<^verbatim>\<open>_commit\<close> sets
  \<^verbatim>\<open>writeOptions.disableWAL = !_durable\<close> and then calls \<^verbatim>\<open>Write\<close> with a fresh
  \<^verbatim>\<open>rocksdb::WriteOptions()\<close>: a unit built with \<open>durable = false\<close> that commits one
  buffered put at depth 1 has its batch written with the write-ahead log enabled.
\<close>

theorem C1_not_durable_commit_keeps_wal:
  "map_sum id (trace \<circ> fst)
     (commitUnitOfWork world0
        (writeBatch_Put 1 ''k'' ''v'' (beginUnitOfWork (new_RocksRecoveryUnit False))))
   = Inr [DbWrite \<lparr>disableWAL = False\<rparr> [(1, WriteEntry kPutRecord ''k'' ''v'')], TxnCommit]"
  by (simp add: commitUnitOfWork_def ru_commit_def releaseSnapshot_def unit_simps world_simps)

text \<open>
  C2. On the first read that needs a consistent view the recovery unit asks the conflict
  tracker for the ordering token (\<^verbatim>\<open>recordSnapshotId\<close>) strictly before it asks the store
  for the snapshot handle, and every later call in the same unit of work reuses that handle.
  The theorem says what each acquiring function does, and then what every call and every
  list of calls can do.

  \<^item> \<^verbatim>\<open>snapshot()\<close> on a unit that holds no snapshot calls the tracker for the token, then
    the store for the handle, keeps the handle and returns it; on a unit that holds a handle
    it returns that handle and does nothing else.
  \<^item> \<^verbatim>\<open>NewIterator\<close> on a column family other than the default one does the same
    acquisition first when no snapshot is held, then asks the store for an iterator scoped
    to the handle; when a handle is held, its only call is the iterator request scoped to
    that handle. The iterator returned has the store's iterator scoped to the handle at its
    base.
  \<^item> \<^verbatim>\<open>Get\<close> that does not find the key in the write buffer does the same with a point
    lookup; \<^verbatim>\<open>Get\<close> that finds the key needs no view and leaves world and unit as they
    are.
  \<^item> For every call \<open>op\<close> of the interface, with \<open>ev\<close> the events it appends to the trace:
    from a unit that holds no snapshot, the call either acquires nothing and reads nothing
    from the store, or its first two events are the token and then the handle \<open>h\<close>, nothing
    else is acquired, every read is scoped to \<open>h\<close> and the unit holds \<open>h\<close> afterwards; from a
    unit that holds \<open>h\<close>, the call acquires nothing, every read is scoped to \<open>h\<close>, and the
    unit still holds \<open>h\<close>, unless the call ends the unit of work (the outermost commit, the
    last \<^verbatim>\<open>endUnitOfWork\<close>, \<^verbatim>\<open>commitAndRestart\<close>) and the unit then holds no snapshot.
  \<^item> For every list of calls \<open>cs\<close> that stays within the unit of work: there is at most one
    acquisition, token directly before handle, no read comes before it, every read after
    it is scoped to the handle, and the unit holds the handle at the end; a handle held at
    the start is the one every read is scoped to and is still held at the end.
\<close>

theorem C2_token_before_handle_and_reuse:
  "snapshot w s =
     (case ru_snapshot s of
        None \<Rightarrow>
          (fst (db_GetSnapshot (db w)),
           w\<lparr>db := snd (db_GetSnapshot (db w)),
             trace := trace w @
               [TxnRecordSnapshotId, DbGetSnapshot (fst (db_GetSnapshot (db w)))]\<rparr>,
           s\<lparr>ru_snapshot := Some (fst (db_GetSnapshot (db w)))\<rparr>)
      | Some h \<Rightarrow> (h, w, s)) \<and>
   (c \<noteq> DefaultColumnFamily (db w) \<longrightarrow>
      NewIterator c w s =
        (case ru_snapshot s of
           None \<Rightarrow>
             Inr (case ru_writeBatch s of
                    None \<Rightarrow> DbIterator \<lparr>ro_snapshot = Some (fst (db_GetSnapshot (db w)))\<rparr> c
                  | Some b \<Rightarrow>
                      if Count b > 0
                      then WithBase c b
                             (DbIterator \<lparr>ro_snapshot = Some (fst (db_GetSnapshot (db w)))\<rparr> c)
                      else DbIterator \<lparr>ro_snapshot = Some (fst (db_GetSnapshot (db w)))\<rparr> c,
                  w\<lparr>db := snd (db_GetSnapshot (db w)),
                    trace := trace w @
                      [TxnRecordSnapshotId, DbGetSnapshot (fst (db_GetSnapshot (db w))),
                       DbNewIterator \<lparr>ro_snapshot = Some (fst (db_GetSnapshot (db w)))\<rparr> c]\<rparr>,
                  s\<lparr>ru_snapshot := Some (fst (db_GetSnapshot (db w)))\<rparr>)
         | Some h \<Rightarrow>
             Inr (case ru_writeBatch s of
                    None \<Rightarrow> DbIterator \<lparr>ro_snapshot = Some h\<rparr> c
                  | Some b \<Rightarrow>
                      if Count b > 0 then WithBase c b (DbIterator \<lparr>ro_snapshot = Some h\<rparr> c)
                      else DbIterator \<lparr>ro_snapshot = Some h\<rparr> c,
                  w\<lparr>trace := trace w @ [DbNewIterator \<lparr>ro_snapshot = Some h\<rparr> c]\<rparr>,
                  s))) \<and>
   (probe s c k = None \<longrightarrow>
      Get c k w s =
        (case ru_snapshot s of
           None \<Rightarrow>
             (db_Get \<lparr>ro_snapshot = Some (fst (db_GetSnapshot (db w)))\<rparr> c k
                (snd (db_GetSnapshot (db w))),
              w\<lparr>db := snd (db_GetSnapshot (db w)),
                trace := trace w @
                  [TxnRecordSnapshotId, DbGetSnapshot (fst (db_GetSnapshot (db w))),
                   DbGet \<lparr>ro_snapshot = Some (fst (db_GetSnapshot (db w)))\<rparr> c k]\<rparr>,
              s\<lparr>ru_snapshot := Some (fst (db_GetSnapshot (db w)))\<rparr>)
         | Some h \<Rightarrow>
             (db_Get \<lparr>ro_snapshot = Some h\<rparr> c k (db w),
              w\<lparr>trace := trace w @ [DbGet \<lparr>ro_snapshot = Some h\<rparr> c k]\<rparr>,
              s))) \<and>
   (probe s c k \<noteq> None \<longrightarrow> snd (Get c k w s) = (w, s)) \<and>
   (step op (w, s) = Inr (w', s') \<longrightarrow>
      (\<exists>ev. trace w' = trace w @ ev \<and>
         (case ru_snapshot s of
            None \<Rightarrow>
              (acquisitions ev = [] \<and> read_snapshots ev = [] \<and> ru_snapshot s' = None) \<or>
              (\<exists>h rest. ev = TxnRecordSnapshotId # DbGetSnapshot h # rest \<and>
                 acquisitions rest = [] \<and> set (read_snapshots rest) \<subseteq> {Some h} \<and>
                 ru_snapshot s' = Some h)
          | Some h \<Rightarrow>
              acquisitions ev = [] \<and> set (read_snapshots ev) \<subseteq> {Some h} \<and>
              (ru_snapshot s' = Some h \<or>
               ends_unit_of_work op s \<and> ru_snapshot s' = None)))) \<and>
   (run cs (w, s) = Inr (w'', s'') \<and> within_unit_of_work cs (w, s) \<longrightarrow>
      (\<exists>ev. trace w'' = trace w @ ev \<and>
         (case ru_snapshot s of
            None \<Rightarrow>
              (acquisitions ev = [] \<and> read_snapshots ev = [] \<and> ru_snapshot s'' = None) \<or>
              (\<exists>h before rest.
                 ev = before @ TxnRecordSnapshotId # DbGetSnapshot h # rest \<and>
                 acquisitions before = [] \<and> read_snapshots before = [] \<and>
                 acquisitions rest = [] \<and> set (read_snapshots rest) \<subseteq> {Some h} \<and>
                 ru_snapshot s'' = Some h)
          | Some h \<Rightarrow>
              acquisitions ev = [] \<and> set (read_snapshots ev) \<subseteq> {Some h} \<and>
              ru_snapshot s'' = Some h)))"
proof (intro conjI impI)
  show "snapshot w s =
     (case ru_snapshot s of
        None \<Rightarrow>
          (fst (db_GetSnapshot (db w)),
           w\<lparr>db := snd (db_GetSnapshot (db w)),
             trace := trace w @
               [TxnRecordSnapshotId, DbGetSnapshot (fst (db_GetSnapshot (db w)))]\<rparr>,
           s\<lparr>ru_snapshot := Some (fst (db_GetSnapshot (db w)))\<rparr>)
      | Some h \<Rightarrow> (h, w, s))"
    by (rule snapshot_store)
next
  assume "c \<noteq> DefaultColumnFamily (db w)"
  then show "NewIterator c w s =
        (case ru_snapshot s of
           None \<Rightarrow>
             Inr (case ru_writeBatch s of
                    None \<Rightarrow> DbIterator \<lparr>ro_snapshot = Some (fst (db_GetSnapshot (db w)))\<rparr> c
                  | Some b \<Rightarrow>
                      if Count b > 0
                      then WithBase c b
                             (DbIterator \<lparr>ro_snapshot = Some (fst (db_GetSnapshot (db w)))\<rparr> c)
                      else DbIterator \<lparr>ro_snapshot = Some (fst (db_GetSnapshot (db w)))\<rparr> c,
                  w\<lparr>db := snd (db_GetSnapshot (db w)),
                    trace := trace w @
                      [TxnRecordSnapshotId, DbGetSnapshot (fst (db_GetSnapshot (db w))),
                       DbNewIterator \<lparr>ro_snapshot = Some (fst (db_GetSnapshot (db w)))\<rparr> c]\<rparr>,
                  s\<lparr>ru_snapshot := Some (fst (db_GetSnapshot (db w)))\<rparr>)
         | Some h \<Rightarrow>
             Inr (case ru_writeBatch s of
                    None \<Rightarrow> DbIterator \<lparr>ro_snapshot = Some h\<rparr> c
                  | Some b \<Rightarrow>
                      if Count b > 0 then WithBase c b (DbIterator \<lparr>ro_snapshot = Some h\<rparr> c)
                      else DbIterator \<lparr>ro_snapshot = Some h\<rparr> c,
                  w\<lparr>trace := trace w @ [DbNewIterator \<lparr>ro_snapshot = Some h\<rparr> c]\<rparr>,
                  s))"
    by (rule NewIterator_eq)
next
  assume "probe s c k = None"
  then show "Get c k w s =
        (case ru_snapshot s of
           None \<Rightarrow>
             (db_Get \<lparr>ro_snapshot = Some (fst (db_GetSnapshot (db w)))\<rparr> c k
                (snd (db_GetSnapshot (db w))),
              w\<lparr>db := snd (db_GetSnapshot (db w)),
                trace := trace w @
                  [TxnRecordSnapshotId, DbGetSnapshot (fst (db_GetSnapshot (db w))),
                   DbGet \<lparr>ro_snapshot = Some (fst (db_GetSnapshot (db w)))\<rparr> c k]\<rparr>,
              s\<lparr>ru_snapshot := Some (fst (db_GetSnapshot (db w)))\<rparr>)
         | Some h \<Rightarrow>
             (db_Get \<lparr>ro_snapshot = Some h\<rparr> c k (db w),
              w\<lparr>trace := trace w @ [DbGet \<lparr>ro_snapshot = Some h\<rparr> c k]\<rparr>,
              s))"
    by (rule Get_miss_eq)
next
  assume "probe s c k \<noteq> None"
  then show "snd (Get c k w s) = (w, s)" by (rule Get_hit_eq)
next
  assume "step op (w, s) = Inr (w', s')"
  from step_snapshot_discipline [OF this]
  show "\<exists>ev. trace w' = trace w @ ev \<and>
         (case ru_snapshot s of
            None \<Rightarrow>
              (acquisitions ev = [] \<and> read_snapshots ev = [] \<and> ru_snapshot s' = None) \<or>
              (\<exists>h rest. ev = TxnRecordSnapshotId # DbGetSnapshot h # rest \<and>
                 acquisitions rest = [] \<and> set (read_snapshots rest) \<subseteq> {Some h} \<and>
                 ru_snapshot s' = Some h)
          | Some h \<Rightarrow>
              acquisitions ev = [] \<and> set (read_snapshots ev) \<subseteq> {Some h} \<and>
              (ru_snapshot s' = Some h \<or>
               ends_unit_of_work op s \<and> ru_snapshot s' = None))"
    by (simp add: snapshot_discipline_def)
next
  assume "run cs (w, s) = Inr (w'', s'') \<and> within_unit_of_work cs (w, s)"
  then have "\<exists>ev. trace w'' = trace w @ ev \<and> run_discipline s s'' ev"
    using run_snapshot_discipline [of cs w s w'' s''] by blast
  then show "\<exists>ev. trace w'' = trace w @ ev \<and>
         (case ru_snapshot s of
            None \<Rightarrow>
              (acquisitions ev = [] \<and> read_snapshots ev = [] \<and> ru_snapshot s'' = None) \<or>
              (\<exists>h before rest.
                 ev = before @ TxnRecordSnapshotId # DbGetSnapshot h # rest \<and>
                 acquisitions before = [] \<and> read_snapshots before = [] \<and>
                 acquisitions rest = [] \<and> set (read_snapshots rest) \<subseteq> {Some h} \<and>
                 ru_snapshot s'' = Some h)
          | Some h \<Rightarrow>
              acquisitions ev = [] \<and> set (read_snapshots ev) \<subseteq> {Some h} \<and>
              ru_snapshot s'' = Some h)"
    by (simp add: run_discipline_def)
qed

text \<open>
  On a fresh unit, \<^verbatim>\<open>NewIterator\<close> and a \<^verbatim>\<open>Get\<close> that misses the buffer acquire the
  snapshot, token first, and read through it; on the unit that holds the handle 0 they
  read through that handle and acquire nothing; a \<^verbatim>\<open>Get\<close> that hits the buffer changes
  nothing; so do the calls taken one by one and two reads made one after the other.
\<close>

theorem C2_witness:
  "2 \<noteq> DefaultColumnFamily (db world0) \<and>
   NewIterator 2 world0 unit_fresh =
     Inr (DbIterator \<lparr>ro_snapshot = Some 0\<rparr> 2,
          world0\<lparr>db := snd (db_GetSnapshot (db world0)),
            trace := [TxnRecordSnapshotId, DbGetSnapshot 0,
                      DbNewIterator \<lparr>ro_snapshot = Some 0\<rparr> 2]\<rparr>,
          unit_fresh\<lparr>ru_snapshot := Some 0\<rparr>) \<and>
   2 \<noteq> DefaultColumnFamily (db world_read) \<and>
   NewIterator 2 world_read unit_read =
     Inr (DbIterator \<lparr>ro_snapshot = Some 0\<rparr> 2,
          world_read\<lparr>trace := trace world_read @ [DbNewIterator \<lparr>ro_snapshot = Some 0\<rparr> 2]\<rparr>,
          unit_read) \<and>
   probe unit_fresh 2 ''k'' = None \<and>
   Get 2 ''k'' world0 unit_fresh =
     (db_Get \<lparr>ro_snapshot = Some 0\<rparr> 2 ''k'' (snd (db_GetSnapshot (db world0))),
      world0\<lparr>db := snd (db_GetSnapshot (db world0)),
        trace := [TxnRecordSnapshotId, DbGetSnapshot 0,
                  DbGet \<lparr>ro_snapshot = Some 0\<rparr> 2 ''k'']\<rparr>,
      unit_fresh\<lparr>ru_snapshot := Some 0\<rparr>) \<and>
   probe unit_read 2 ''k'' = None \<and>
   Get 2 ''k'' world_read unit_read =
     (db_Get \<lparr>ro_snapshot = Some 0\<rparr> 2 ''k'' (db world_read),
      world_read\<lparr>trace := trace world_read @ [DbGet \<lparr>ro_snapshot = Some 0\<rparr> 2 ''k'']\<rparr>,
      unit_read) \<and>
   probe unit_put 1 ''k'' \<noteq> None \<and>
   snd (Get 1 ''k'' world0 unit_put) = (world0, unit_put) \<and>
   step (Call_Get 1 ''k'') (world0, unit_fresh) = Inr (world_read, unit_read) \<and>
   ru_snapshot unit_fresh = None \<and>
   (\<exists>ev. trace world_read = trace world0 @ ev \<and>
      (\<exists>h rest. ev = TxnRecordSnapshotId # DbGetSnapshot h # rest \<and> acquisitions rest = [] \<and>
         set (read_snapshots rest) \<subseteq> {Some h} \<and> ru_snapshot unit_read = Some h)) \<and>
   step (Call_Get 1 ''k'') (world_read, unit_read) = Inr (world_read2, unit_read2) \<and>
   ru_snapshot unit_read = Some 0 \<and>
   (\<exists>ev. trace world_read2 = trace world_read @ ev \<and>
      acquisitions ev = [] \<and> set (read_snapshots ev) \<subseteq> {Some 0} \<and>
      ru_snapshot unit_read2 = Some 0) \<and>
   run [Call_Get 1 ''k'', Call_Get 1 ''k''] (world0, unit_fresh) = Inr (world_read2, unit_read2) \<and>
   within_unit_of_work [Call_Get 1 ''k'', Call_Get 1 ''k''] (world0, unit_fresh) \<and>
   (\<exists>ev. trace world_read2 = trace world0 @ ev \<and>
      (\<exists>h before rest.
         ev = before @ TxnRecordSnapshotId # DbGetSnapshot h # rest \<and>
         acquisitions before = [] \<and> read_snapshots before = [] \<and>
         acquisitions rest = [] \<and> set (read_snapshots rest) \<subseteq> {Some h} \<and>
         ru_snapshot unit_read2 = Some h))"
proof -
  have h1: "step (Call_Get 1 ''k'') (world0, unit_fresh) = Inr (world_read, unit_read)"
    by (simp add: world_read_def unit_read_def)
  have n1: "ru_snapshot unit_fresh = None" and b1: "ru_writeBatch unit_fresh = None"
    by (simp_all add: example_simps unit_simps)
  have n2: "ru_snapshot unit_read = Some 0" and b2: "ru_writeBatch unit_read = None"
    unfolding unit_read_def first_read by (simp_all add: example_simps unit_simps)
  have h2: "step (Call_Get 1 ''k'') (world_read, unit_read) = Inr (world_read2, unit_read2)"
    by (simp add: world_read2_def unit_read2_def)
  have e: "\<not> ends_unit_of_work (Call_Get 1 ''k'') unit_read"
    "\<not> ends_unit_of_work (Call_Get 1 ''k'') unit_fresh"
    by (simp_all add: ends_unit_of_work_def)
  have r: "run [Call_Get 1 ''k'', Call_Get 1 ''k''] (world0, unit_fresh)
             = Inr (world_read2, unit_read2)"
    using h1 h2 by simp
  have i: "within_unit_of_work [Call_Get 1 ''k'', Call_Get 1 ''k''] (world0, unit_fresh)"
    using h1 e by simp
  have f: "2 \<noteq> DefaultColumnFamily (db world0)" "2 \<noteq> DefaultColumnFamily (db world_read)"
    by (simp_all add: DefaultColumnFamily_def)
  have g: "fst (db_GetSnapshot (db world0)) = 0"
    by (simp add: world_simps)
  have p: "probe unit_fresh 2 ''k'' = None" "probe unit_read 2 ''k'' = None"
    using b1 b2 by (simp_all add: probe_def)
  have q: "probe unit_put 1 ''k'' \<noteq> None"
    by (simp add: probe_def example_simps unit_simps wbwi_NewIterator_def index_insert_def)
  have t0: "trace world0 = []" by (simp add: world0_def)
  from C2_token_before_handle_and_reuse [where c = 2 and w = world0 and s = unit_fresh] f n1 b1 g t0
  have it1: "NewIterator 2 world0 unit_fresh =
     Inr (DbIterator \<lparr>ro_snapshot = Some 0\<rparr> 2,
          world0\<lparr>db := snd (db_GetSnapshot (db world0)),
            trace := [TxnRecordSnapshotId, DbGetSnapshot 0,
                      DbNewIterator \<lparr>ro_snapshot = Some 0\<rparr> 2]\<rparr>,
          unit_fresh\<lparr>ru_snapshot := Some 0\<rparr>)"
    by simp
  from C2_token_before_handle_and_reuse [where c = 2 and w = world_read and s = unit_read] f n2 b2
  have it2: "NewIterator 2 world_read unit_read =
     Inr (DbIterator \<lparr>ro_snapshot = Some 0\<rparr> 2,
          world_read\<lparr>trace := trace world_read @ [DbNewIterator \<lparr>ro_snapshot = Some 0\<rparr> 2]\<rparr>,
          unit_read)"
    by simp
  from C2_token_before_handle_and_reuse
         [where c = 2 and k = "''k''" and w = world0 and s = unit_fresh] p n1 g t0
  have g1: "Get 2 ''k'' world0 unit_fresh =
     (db_Get \<lparr>ro_snapshot = Some 0\<rparr> 2 ''k'' (snd (db_GetSnapshot (db world0))),
      world0\<lparr>db := snd (db_GetSnapshot (db world0)),
        trace := [TxnRecordSnapshotId, DbGetSnapshot 0,
                  DbGet \<lparr>ro_snapshot = Some 0\<rparr> 2 ''k'']\<rparr>,
      unit_fresh\<lparr>ru_snapshot := Some 0\<rparr>)"
    by simp
  from C2_token_before_handle_and_reuse
         [where c = 2 and k = "''k''" and w = world_read and s = unit_read] p n2
  have g2: "Get 2 ''k'' world_read unit_read =
     (db_Get \<lparr>ro_snapshot = Some 0\<rparr> 2 ''k'' (db world_read),
      world_read\<lparr>trace := trace world_read @ [DbGet \<lparr>ro_snapshot = Some 0\<rparr> 2 ''k'']\<rparr>,
      unit_read)"
    by simp
  from C2_token_before_handle_and_reuse
         [where c = 1 and k = "''k''" and w = world0 and s = unit_put] q
  have g3: "snd (Get 1 ''k'' world0 unit_put) = (world0, unit_put)"
    by blast
  from C2_token_before_handle_and_reuse
         [where op = "Call_Get 1 ''k''" and w = world0 and s = unit_fresh
            and w' = world_read and s' = unit_read]
       h1 n1 n2
  have a: "\<exists>ev. trace world_read = trace world0 @ ev \<and>
      (\<exists>h rest. ev = TxnRecordSnapshotId # DbGetSnapshot h # rest \<and> acquisitions rest = [] \<and>
         set (read_snapshots rest) \<subseteq> {Some h} \<and> ru_snapshot unit_read = Some h)"
    by auto
  from C2_token_before_handle_and_reuse
         [where op = "Call_Get 1 ''k''" and w = world_read and s = unit_read
            and w' = world_read2 and s' = unit_read2]
       h2 n2 e
  have b: "\<exists>ev. trace world_read2 = trace world_read @ ev \<and>
      acquisitions ev = [] \<and> set (read_snapshots ev) \<subseteq> {Some 0} \<and>
      ru_snapshot unit_read2 = Some 0"
    by auto
  then have n3: "ru_snapshot unit_read2 = Some 0" by blast
  from C2_token_before_handle_and_reuse
         [where cs = "[Call_Get 1 ''k'', Call_Get 1 ''k'']" and w = world0 and s = unit_fresh
            and w'' = world_read2 and s'' = unit_read2]
       r i n1 n3
  have c: "\<exists>ev. trace world_read2 = trace world0 @ ev \<and>
      (\<exists>h before rest.
         ev = before @ TxnRecordSnapshotId # DbGetSnapshot h # rest \<and>
         acquisitions before = [] \<and> read_snapshots before = [] \<and>
         acquisitions rest = [] \<and> set (read_snapshots rest) \<subseteq> {Some h} \<and>
         ru_snapshot unit_read2 = Some h)"
    by auto
  from f it1 it2 p g1 g2 q g3 h1 n1 a h2 n2 b r i c show ?thesis by blast
qed

text \<open>
  C3. The claim: a unit of work that increments counter ''x'' by 3 and by 2 and commits at
  depth 1 sees a delta of 5 before the commit, and after it the persisted value and the
  shared counter are the old value plus 5. This holds when the unit has a write buffer at
  the commit, for a key with no earlier pending delta and a counter no other pending entry
  refers to, on a store that accepts the batch: the delta read back is 5, the commit returns,
  the shared counter is its old value plus 5, and the bytes persisted under the key in the
  default column family are the encoding of that total and read back as it. Without a write buffer \<^verbatim>\<open>commitUnitOfWork\<close>
  does not call \<^verbatim>\<open>_commit\<close>: the commit returns with the counters and the store's data
  unchanged.
\<close>

theorem C3_counters_flushed_with_buffer:
  "(ru_depth s = 1 \<and> ru_writeBatch s = Some b \<and> map_of (ru_deltaCounters s) k = None \<and>
    (\<forall>p\<in>set (ru_deltaCounters s). counter_value (snd p) \<noteq> a) \<and> \<not> db_writeFails (db w) \<longrightarrow>
      getDeltaCounter k (incrementCounter k a 2 (incrementCounter k a 3 s)) = 5 \<and>
      (\<exists>w' s'. commitUnitOfWork w (incrementCounter k a 2 (incrementCounter k a 3 s)) = Inr (w', s') \<and>
         counters w' a = counters w a + 5 \<and>
         db_data (db w') (DefaultColumnFamily (db w'), k) =
           Some (encode_longlong (counters w a + 5)) \<and>
         map_option decode_longlong (db_data (db w') (DefaultColumnFamily (db w'), k)) =
           Some (counters w a + 5))) \<and>
   (ru_depth s = 1 \<and> ru_writeBatch s = None \<longrightarrow>
      (\<exists>w' s'. commitUnitOfWork w (incrementCounter k a 2 (incrementCounter k a 3 s)) = Inr (w', s') \<and>
         counters w' = counters w \<and> db_data (db w') = db_data (db w)))"
proof (intro conjI impI)
  assume h: "ru_depth s = 1 \<and> ru_writeBatch s = Some b \<and> map_of (ru_deltaCounters s) k = None \<and>
    (\<forall>p\<in>set (ru_deltaCounters s). counter_value (snd p) \<noteq> a) \<and> \<not> db_writeFails (db w)"
  define s2 where "s2 = incrementCounter k a 2 (incrementCounter k a 3 s)"
  have s2: "s2 = s\<lparr>ru_deltaCounters := ru_deltaCounters s @ [(k, Counter a 5)]\<rparr>"
    using h by (simp add: s2_def incrementCounter_3_2)
  show "getDeltaCounter k s2 = 5"
    using h by (simp add: s2 getDeltaCounter_def map_of_snoc_fresh del: map_of_append)
  define b' where "b' = b @ counter_puts (ru_deltaCounters s2) (counters w)"
  have b': "b' = (b @ counter_puts (ru_deltaCounters s) (counters w)) @
      [(0, WriteEntry kPutRecord k (encode_longlong (counters w a + 5)))]"
    using h by (simp add: b'_def s2 counter_puts_append counter_adds_other)
  have adds: "counter_adds (ru_deltaCounters s2) (counters w) a = counters w a + 5"
    using h by (simp add: s2 counter_adds_append counter_adds_other)
  have c: "ru_commit w s2 =
      Inr (w\<lparr>counters := counter_adds (ru_deltaCounters s2) (counters w),
             db := (db w)\<lparr>db_data := apply_batch b' (db_data (db w))\<rparr>,
             trace := trace w @ [DbWrite WriteOptions_default b', TxnCommit]\<rparr>,
           s2\<lparr>ru_deltaCounters := [], ru_writeBatch := None\<rparr>)"
  proof -
    have wb: "ru_writeBatch s2 = Some b" using h by (simp add: s2)
    have ne: "b' \<noteq> []" by (simp add: b')
    show ?thesis
      using ru_commit_eq [OF wb, of w] ne h by (simp add: b'_def [symmetric])
  qed
  have d: "ru_depth s2 \<le> 1" "ru_writeBatch s2 \<noteq> None" using h by (simp_all add: s2)
  obtain w' s' where r: "commitUnitOfWork w s2 = Inr (w', s')"
    using commitUnitOfWork_returns [of w s2] h by auto
  then have "w' = fst (releaseSnapshot
      (w\<lparr>counters := counter_adds (ru_deltaCounters s2) (counters w),
             db := (db w)\<lparr>db_data := apply_batch b' (db_data (db w))\<rparr>,
             trace := trace w @ [DbWrite WriteOptions_default b', TxnCommit] @ map ChangeCommit (ru_changes s2)\<rparr>)
      (s2\<lparr>ru_deltaCounters := [], ru_writeBatch := None, ru_changes := []\<rparr>))"
    using d by (simp add: commitUnitOfWork_eq c)
  then have "counters w' a = counters w a + 5"
    and "db_data (db w') = apply_batch b' (db_data (db w))"
    by (simp_all add: releaseSnapshot_counters releaseSnapshot_data adds)
  then have "counters w' a = counters w a + 5 \<and>
     db_data (db w') (DefaultColumnFamily (db w'), k) =
       Some (encode_longlong (counters w a + 5)) \<and>
     map_option decode_longlong (db_data (db w') (DefaultColumnFamily (db w'), k)) =
       Some (counters w a + 5)"
    by (simp add: b' apply_batch_append DefaultColumnFamily_def decode_encode)
  with r show "\<exists>w' s'. commitUnitOfWork w s2 = Inr (w', s') \<and>
         counters w' a = counters w a + 5 \<and>
         db_data (db w') (DefaultColumnFamily (db w'), k) =
           Some (encode_longlong (counters w a + 5)) \<and>
         map_option decode_longlong (db_data (db w') (DefaultColumnFamily (db w'), k)) =
           Some (counters w a + 5)"
    by blast
next
  assume h: "ru_depth s = 1 \<and> ru_writeBatch s = None"
  define s2 where "s2 = incrementCounter k a 2 (incrementCounter k a 3 s)"
  have "ru_depth s2 \<le> 1" "ru_writeBatch s2 = None"
    using h by (simp_all add: s2_def incrementCounter_def split: option.splits)
  then have "commitUnitOfWork w s2 =
     Inr (releaseSnapshot (w\<lparr>trace := trace w @ map ChangeCommit (ru_changes s2)\<rparr>)
            (s2\<lparr>ru_changes := []\<rparr>))"
    by (rule commitUnitOfWork_no_batch)
  then have "commitUnitOfWork w s2 =
      Inr (fst (releaseSnapshot (w\<lparr>trace := trace w @ map ChangeCommit (ru_changes s2)\<rparr>)
            (s2\<lparr>ru_changes := []\<rparr>)),
           snd (releaseSnapshot (w\<lparr>trace := trace w @ map ChangeCommit (ru_changes s2)\<rparr>)
            (s2\<lparr>ru_changes := []\<rparr>)))" by simp
  moreover have "counters (fst (releaseSnapshot (w\<lparr>trace := trace w @ map ChangeCommit (ru_changes s2)\<rparr>)
            (s2\<lparr>ru_changes := []\<rparr>))) = counters w"
    "db_data (db (fst (releaseSnapshot (w\<lparr>trace := trace w @ map ChangeCommit (ru_changes s2)\<rparr>)
            (s2\<lparr>ru_changes := []\<rparr>)))) = db_data (db w)"
    by (simp_all add: releaseSnapshot_counters releaseSnapshot_data)
  ultimately show "\<exists>w' s'. commitUnitOfWork w s2 = Inr (w', s') \<and>
         counters w' = counters w \<and> db_data (db w') = db_data (db w)"
    by blast
qed

text \<open>
  The claim as stated fails for a unit that only increments the counter: the delta read
  back is 5, but the commit leaves the world as it was, so the counter is not its old value
  plus 5 and nothing is persisted under the key.
\<close>

theorem C3_counterexample:
  "getDeltaCounter ''x'' unit_x5 = 5 \<and>
   commitUnitOfWork world0 unit_x5 = Inr (world0, unit_x5) \<and>
   counters world0 0 \<noteq> counters world0 0 + 5 \<and>
   db_data (db world0) (0, ''x'') \<noteq> Some (encode_longlong (counters world0 0 + 5))"
  by (simp add: commit_unit_x5) (simp add: example_simps unit_simps world_simps)

theorem C3_witness:
  "ru_depth unit_put = 1 \<and>
   ru_writeBatch unit_put = Some [(1, WriteEntry kPutRecord ''k'' ''v'')] \<and>
   ru_deltaCounters unit_put = [] \<and>
   \<not> db_writeFails (db world0) \<and>
   getDeltaCounter ''x'' (incrementCounter ''x'' 0 2 (incrementCounter ''x'' 0 3 unit_put)) = 5 \<and>
   (\<exists>w' s'. commitUnitOfWork world0
               (incrementCounter ''x'' 0 2 (incrementCounter ''x'' 0 3 unit_put)) = Inr (w', s') \<and>
      counters w' 0 = counters world0 0 + 5 \<and>
      db_data (db w') (DefaultColumnFamily (db w'), ''x'')
        = Some (encode_longlong (counters world0 0 + 5)) \<and>
      map_option decode_longlong (db_data (db w') (DefaultColumnFamily (db w'), ''x''))
        = Some (counters world0 0 + 5)) \<and>
   ru_depth unit_fresh = 1 \<and>
   ru_writeBatch unit_fresh = None \<and>
   (\<exists>w' s'. commitUnitOfWork world0
               (incrementCounter ''x'' 0 2 (incrementCounter ''x'' 0 3 unit_fresh)) = Inr (w', s') \<and>
      counters w' = counters world0 \<and> db_data (db w') = db_data (db world0))"
proof -
  have h1: "ru_depth unit_put = 1 \<and>
      ru_writeBatch unit_put = Some [(1, WriteEntry kPutRecord ''k'' ''v'')] \<and>
      map_of (ru_deltaCounters unit_put) ''x'' = None \<and>
      (\<forall>p\<in>set (ru_deltaCounters unit_put). counter_value (snd p) \<noteq> 0) \<and>
      \<not> db_writeFails (db world0)"
    and d: "ru_deltaCounters unit_put = []"
    by (simp_all add: example_simps unit_simps world_simps)
  have h2: "ru_depth unit_fresh = 1 \<and> ru_writeBatch unit_fresh = None"
    by (simp add: example_simps unit_simps)
  from C3_counters_flushed_with_buffer
         [where s = unit_put and b = "[(1, WriteEntry kPutRecord ''k'' ''v'')]"
            and k = "''x''" and a = 0 and w = world0]
       C3_counters_flushed_with_buffer
         [where s = unit_fresh and k = "''x''" and a = 0 and w = world0]
       h1 h2 d
  show ?thesis by blast
qed




text \<open>
  C5. The claim: the conflict tracker's \<^verbatim>\<open>commit()\<close> is called exactly once per physical
  commit, after the atomic write has succeeded. What the code does, for a commit at depth 1
  or below that returns: \<^verbatim>\<open>commit()\<close> is called once when the unit has something to write
  (a write buffer that is non-empty once the counter deltas are flushed into it), and then
  it is the event right after the write, which the store accepted and applied; it is not
  called at all otherwise.
\<close>

theorem C5_tracker_commit_after_write:
  assumes "commitUnitOfWork w s = Inr (w', s')" and "ru_depth s \<le> 1"
  shows "\<exists>ev. trace w' = trace w @ ev \<and>
     count_list ev TxnCommit = (if has_pending_writes s then 1 else 0) \<and>
     (has_pending_writes s \<longrightarrow>
        (\<exists>b rest. ev = DbWrite WriteOptions_default b # TxnCommit # rest \<and>
           \<not> db_writeFails (db w) \<and> db_data (db w') = apply_batch b (db_data (db w))))"
proof (cases "has_pending_writes s")
  case False
  with commitUnitOfWork_trace [OF assms] show ?thesis
    by (simp add: write_events_pending count_ChangeCommit count_release)
next
  case True
  then obtain b where b: "ru_writeBatch s = Some b"
    and ne: "b @ counter_puts (ru_deltaCounters s) (counters w) \<noteq> []"
    by (auto simp: has_pending_writes_def counter_puts_Nil split: option.splits if_splits)
  from commit_data [OF assms b ne] commitUnitOfWork_trace [OF assms] True b show ?thesis
    by (simp add: write_events_pending count_ChangeCommit count_release)
qed

text \<open>
  The claim as stated fails for a physical commit with nothing to write: the registered
  change is committed, the tracker's \<^verbatim>\<open>commit()\<close> is not called.
\<close>

theorem C5_counterexample:
  "ru_depth (registerChange 7 unit_fresh) = 1 \<and>
   map_sum id (trace \<circ> fst) (commitUnitOfWork world0 (registerChange 7 unit_fresh))
   = Inr [ChangeCommit 7] \<and>
   count_list [ChangeCommit 7] TxnCommit \<noteq> 1"
  by (simp add: commitUnitOfWork_def releaseSnapshot_def example_simps unit_simps world_simps)

theorem C5_witness:
  "commitUnitOfWork world0 unit_put = Inr (world_put, unit_fresh) \<and>
   ru_depth unit_put \<le> 1 \<and>
   has_pending_writes unit_put \<and>
   (\<exists>ev. trace world_put = trace world0 @ ev \<and>
      count_list ev TxnCommit = 1 \<and>
      (\<exists>b rest. ev = DbWrite WriteOptions_default b # TxnCommit # rest \<and>
         \<not> db_writeFails (db world0) \<and>
         db_data (db world_put) = apply_batch b (db_data (db world0))))"
proof -
  have d: "ru_depth unit_put \<le> 1" and p: "has_pending_writes unit_put"
    by (simp_all add: has_pending_writes_def example_simps unit_simps)
  from C5_tracker_commit_after_write [OF commit_unit_put d] p d commit_unit_put show ?thesis
    by auto
qed

text \<open>
  C6. The claim: at every nesting depth above 1 \<^verbatim>\<open>commitUnitOfWork\<close> is a no-op, and only
  \<^verbatim>\<open>commitUnitOfWork\<close> at depth 1 performs the physical commit. What the code does: its
  guard is \<^verbatim>\<open>_depth > 1\<close>. At every depth above 1 the call returns with the world (so the
  store and the trace) and the whole unit (buffered writes, counter deltas, changes,
  snapshot) unchanged. At every depth of 1 or below, with buffered writes and a store that
  accepts them, it performs the physical commit: one batch is written and applied, made of
  the buffered writes followed by one put in the default column family for each pending
  counter key; then the tracker is told, the changes are committed in order, the snapshot
  is released and the unit is cleared. A call that changes anything is at depth 1 or below.
  Depth 0 is how \<^verbatim>\<open>commitAndRestart\<close> reaches it: at depth 0 \<^verbatim>\<open>commitAndRestart\<close> is
  \<^verbatim>\<open>commitUnitOfWork\<close>.
\<close>

theorem C6_commit_is_physical_at_depth_1_or_below:
  "(1 < ru_depth s \<longrightarrow> commitUnitOfWork w s = Inr (w, s)) \<and>
   (ru_depth s \<le> 1 \<and> ru_writeBatch s = Some b \<and> b \<noteq> [] \<and> \<not> db_writeFails (db w) \<longrightarrow>
      (\<exists>w' s' puts. commitUnitOfWork w s = Inr (w', s') \<and>
         trace w' = trace w @
           [DbWrite WriteOptions_default (b @ puts), TxnCommit] @
           map ChangeCommit (ru_changes s) @ release_events s \<and>
         db_data (db w') = apply_batch (b @ puts) (db_data (db w)) \<and>
         length puts = length (ru_deltaCounters s) \<and>
         set (map (ekey \<circ> snd) puts) = fst ` set (ru_deltaCounters s) \<and>
         (\<forall>p\<in>set puts. fst p = 0 \<and> etype (snd p) = kPutRecord) \<and>
         s' = s\<lparr>ru_changes := [], ru_snapshot := None, ru_deltaCounters := [],
                ru_writeBatch := None\<rparr>)) \<and>
   (commitUnitOfWork w s = Inr (w', s') \<and> (w', s') \<noteq> (w, s) \<longrightarrow> ru_depth s \<le> 1) \<and>
   (ru_depth s = 0 \<longrightarrow> commitAndRestart w s = commitUnitOfWork w s)"
proof (intro conjI impI)
  assume "1 < ru_depth s"
  then show "commitUnitOfWork w s = Inr (w, s)" by (rule commitUnitOfWork_nested)
next
  assume h: "ru_depth s \<le> 1 \<and> ru_writeBatch s = Some b \<and> b \<noteq> [] \<and> \<not> db_writeFails (db w)"
  then obtain w' s' where r: "commitUnitOfWork w s = Inr (w', s')"
    using commitUnitOfWork_returns [of w s] by auto
  define puts where "puts = counter_puts (ru_deltaCounters s) (counters w)"
  from h have d: "ru_depth s \<le> 1" and b: "ru_writeBatch s = Some b"
    and ne: "b @ counter_puts (ru_deltaCounters s) (counters w) \<noteq> []" by simp_all
  from commitUnitOfWork_trace [OF r d] commitUnitOfWork_unit [OF r d] commit_data [OF r d b ne]
    b ne
  have 1: "trace w' = trace w @
           [DbWrite WriteOptions_default (b @ puts), TxnCommit] @
           map ChangeCommit (ru_changes s) @ release_events s"
    and 2: "db_data (db w') = apply_batch (b @ puts) (db_data (db w))"
    and 3: "s' = s\<lparr>ru_changes := [], ru_snapshot := None, ru_deltaCounters := [],
                ru_writeBatch := None\<rparr>"
    by (simp_all add: write_events_def puts_def)
  have 4: "length puts = length (ru_deltaCounters s)"
    by (simp add: puts_def counter_puts_length)
  have 5: "set (map (ekey \<circ> snd) puts) = fst ` set (ru_deltaCounters s)"
    by (simp only: puts_def counter_puts_keys set_map)
  have 6: "\<forall>p\<in>set puts. fst p = 0 \<and> etype (snd p) = kPutRecord"
    by (simp add: puts_def counter_puts_kind)
  from r 1 2 3 4 5 6
  show "\<exists>w' s' puts. commitUnitOfWork w s = Inr (w', s') \<and>
         trace w' = trace w @
           [DbWrite WriteOptions_default (b @ puts), TxnCommit] @
           map ChangeCommit (ru_changes s) @ release_events s \<and>
         db_data (db w') = apply_batch (b @ puts) (db_data (db w)) \<and>
         length puts = length (ru_deltaCounters s) \<and>
         set (map (ekey \<circ> snd) puts) = fst ` set (ru_deltaCounters s) \<and>
         (\<forall>p\<in>set puts. fst p = 0 \<and> etype (snd p) = kPutRecord) \<and>
         s' = s\<lparr>ru_changes := [], ru_snapshot := None, ru_deltaCounters := [],
                ru_writeBatch := None\<rparr>"
    by blast
next
  assume h: "commitUnitOfWork w s = Inr (w', s') \<and> (w', s') \<noteq> (w, s)"
  show "ru_depth s \<le> 1"
  proof (rule ccontr)
    assume "\<not> ru_depth s \<le> 1"
    then have "1 < ru_depth s" by simp
    from commitUnitOfWork_nested [OF this, of w] h show False by simp
  qed
next
  assume "ru_depth s = 0"
  then show "commitAndRestart w s = commitUnitOfWork w s"
    by (simp add: commitAndRestart_def)
qed

text \<open>
  The claim as stated fails at depth 0: a unit that buffers a put outside any unit of work
  and commits has the batch written, by \<^verbatim>\<open>commitUnitOfWork\<close> and so by
  \<^verbatim>\<open>commitAndRestart\<close>.
\<close>

theorem C6_counterexample:
  "ru_depth (writeBatch_Put 1 ''k'' ''v'' (new_RocksRecoveryUnit True)) = 0 \<and>
   commitUnitOfWork world0 (writeBatch_Put 1 ''k'' ''v'' (new_RocksRecoveryUnit True))
     = Inr (world_put, new_RocksRecoveryUnit True) \<and>
   commitAndRestart world0 (writeBatch_Put 1 ''k'' ''v'' (new_RocksRecoveryUnit True))
     = Inr (world_put, new_RocksRecoveryUnit True) \<and>
   trace world_put
     = [DbWrite WriteOptions_default [(1, WriteEntry kPutRecord ''k'' ''v'')], TxnCommit] \<and>
   db_data (db world_put) (1, ''k'') = Some ''v'' \<and>
   db_data (db world0) (1, ''k'') = None"
  by (simp add: commitAndRestart_def commitUnitOfWork_def ru_commit_def releaseSnapshot_def
      example_simps unit_simps world_simps)

theorem C6_witness:
  "1 < ru_depth (beginUnitOfWork unit_put) \<and>
   commitUnitOfWork world0 (beginUnitOfWork unit_put) = Inr (world0, beginUnitOfWork unit_put) \<and>
   ru_depth unit_put \<le> 1 \<and>
   ru_writeBatch unit_put = Some [(1, WriteEntry kPutRecord ''k'' ''v'')] \<and>
   \<not> db_writeFails (db world0) \<and>
   (\<exists>w' s' puts. commitUnitOfWork world0 unit_put = Inr (w', s') \<and>
      trace w' = trace world0 @
        [DbWrite WriteOptions_default ([(1, WriteEntry kPutRecord ''k'' ''v'')] @ puts),
         TxnCommit] @ map ChangeCommit (ru_changes unit_put) @ release_events unit_put \<and>
      db_data (db w') =
        apply_batch ([(1, WriteEntry kPutRecord ''k'' ''v'')] @ puts) (db_data (db world0)) \<and>
      length puts = length (ru_deltaCounters unit_put) \<and>
      set (map (ekey \<circ> snd) puts) = fst ` set (ru_deltaCounters unit_put) \<and>
      (\<forall>p\<in>set puts. fst p = 0 \<and> etype (snd p) = kPutRecord) \<and>
      s' = unit_put\<lparr>ru_changes := [], ru_snapshot := None, ru_deltaCounters := [],
                    ru_writeBatch := None\<rparr>) \<and>
   commitUnitOfWork world0 unit_put = Inr (world_put, unit_fresh) \<and>
   (world_put, unit_fresh) \<noteq> (world0, unit_put) \<and>
   ru_depth (new_RocksRecoveryUnit True) = 0 \<and>
   commitAndRestart world0 (new_RocksRecoveryUnit True)
     = commitUnitOfWork world0 (new_RocksRecoveryUnit True)"
proof -
  have h1: "1 < ru_depth (beginUnitOfWork unit_put)"
    and d: "ru_depth unit_put \<le> 1"
    and b: "ru_writeBatch unit_put = Some [(1, WriteEntry kPutRecord ''k'' ''v'')]"
    and f: "\<not> db_writeFails (db world0)"
    and h3: "(world_put, unit_fresh) \<noteq> (world0, unit_put)"
    and h4: "ru_depth (new_RocksRecoveryUnit True) = 0"
    by (simp_all add: example_simps unit_simps world_simps)
  have h2: "ru_depth unit_put \<le> 1 \<and>
      ru_writeBatch unit_put = Some [(1, WriteEntry kPutRecord ''k'' ''v'')] \<and>
      [(1, WriteEntry kPutRecord ''k'' ''v'')] \<noteq> [] \<and> \<not> db_writeFails (db world0)"
    using d b f by simp
  note nested = C6_commit_is_physical_at_depth_1_or_below
         [where s = "beginUnitOfWork unit_put" and w = world0]
  note outer = C6_commit_is_physical_at_depth_1_or_below
         [where s = unit_put and w = world0 and b = "[(1, WriteEntry kPutRecord ''k'' ''v'')]"
            and w' = world_put and s' = unit_fresh]
  note restart = C6_commit_is_physical_at_depth_1_or_below
         [where s = "new_RocksRecoveryUnit True" and w = world0]
  have a1: "commitUnitOfWork world0 (beginUnitOfWork unit_put)
      = Inr (world0, beginUnitOfWork unit_put)"
    by (rule nested [THEN conjunct1, THEN mp, OF h1])
  note a2 = outer [THEN conjunct2, THEN conjunct1, THEN mp, OF h2]
  have a3: "ru_depth unit_put \<le> 1"
    using outer [THEN conjunct2, THEN conjunct2, THEN conjunct1] commit_unit_put h3 by simp
  have a4: "commitAndRestart world0 (new_RocksRecoveryUnit True)
     = commitUnitOfWork world0 (new_RocksRecoveryUnit True)"
    by (rule restart [THEN conjunct2, THEN conjunct2, THEN conjunct2, THEN mp, OF h4])
  show ?thesis
    by (intro conjI) (rule h1 a1 a3 b f a2 commit_unit_put h3 h4 a4)+
qed

text \<open>
  C7. Changes are kept in registration order (\<^verbatim>\<open>registerChange\<close> appends). A physical
  commit (which returns whenever the store accepts the batch) calls \<^verbatim>\<open>commit()\<close> on each
  registered change in registration order, a physical abort calls \<^verbatim>\<open>rollback()\<close> on each
  in reverse registration order, no other call on a change is made, and in both cases the
  change list is empty afterwards.
\<close>

theorem C7_changes_forward_on_commit_reverse_on_abort:
  "ru_changes (foldl (\<lambda>s c. registerChange c s) s cs) = ru_changes s @ cs \<and>
   (\<not> db_writeFails (db w) \<longrightarrow> (\<exists>w' s'. commitUnitOfWork w s = Inr (w', s'))) \<and>
   (ru_depth s \<le> 1 \<and> commitUnitOfWork w s = Inr (w', s') \<longrightarrow>
      (\<exists>ev. trace w' = trace w @ ev \<and>
            filter is_change_event ev = map ChangeCommit (ru_changes s)) \<and>
      ru_changes s' = []) \<and>
   (\<exists>ev. trace (fst (ru_abort w s)) = trace w @ ev \<and>
         filter is_change_event ev = map ChangeRollback (rev (ru_changes s))) \<and>
   ru_changes (snd (ru_abort w s)) = []"
proof (intro conjI impI)
  show "ru_changes (foldl (\<lambda>s c. registerChange c s) s cs) = ru_changes s @ cs"
    by (rule registerChange_all)
next
  assume "\<not> db_writeFails (db w)"
  then show "\<exists>w' s'. commitUnitOfWork w s = Inr (w', s')" by (rule commitUnitOfWork_returns)
next
  assume h: "ru_depth s \<le> 1 \<and> commitUnitOfWork w s = Inr (w', s')"
  then have r: "commitUnitOfWork w s = Inr (w', s')" and d: "ru_depth s \<le> 1" by simp_all
  from commitUnitOfWork_trace [OF r d]
  show "\<exists>ev. trace w' = trace w @ ev \<and>
            filter is_change_event ev = map ChangeCommit (ru_changes s)"
    by (simp add: changes_of_write_events changes_of_release_events changes_of_ChangeCommit)
  from commitUnitOfWork_unit [OF r d] show "ru_changes s' = []" by (simp split: if_splits)
next
  show "\<exists>ev. trace (fst (ru_abort w s)) = trace w @ ev \<and>
         filter is_change_event ev = map ChangeRollback (rev (ru_changes s))"
    by (simp add: ru_abort_trace changes_of_release_events changes_of_ChangeRollback
        del: rev_map map_append)
next
  show "ru_changes (snd (ru_abort w s)) = []"
    by (simp add: ru_abort_eq releaseSnapshot_unit)
qed

theorem C7_witness:
  "ru_changes (foldl (\<lambda>s c. registerChange c s) unit_put [3, 8]) = ru_changes unit_put @ [3, 8] \<and>
   \<not> db_writeFails (db world0) \<and>
   ru_depth (registerChange 8 (registerChange 3 unit_put)) \<le> 1 \<and>
   commitUnitOfWork world0 (registerChange 8 (registerChange 3 unit_put))
     = Inr (world_put\<lparr>trace := trace world_put @ [ChangeCommit 3, ChangeCommit 8]\<rparr>, unit_fresh) \<and>
   (\<exists>ev. trace (world_put\<lparr>trace := trace world_put @ [ChangeCommit 3, ChangeCommit 8]\<rparr>)
           = trace world0 @ ev \<and>
         filter is_change_event ev
           = map ChangeCommit (ru_changes (registerChange 8 (registerChange 3 unit_put)))) \<and>
   ru_changes unit_fresh = [] \<and>
   ru_changes (registerChange 8 (registerChange 3 unit_put)) = [3, 8]"
proof -
  have c: "commitUnitOfWork world0 (registerChange 8 (registerChange 3 unit_put))
     = Inr (world_put\<lparr>trace := trace world_put @ [ChangeCommit 3, ChangeCommit 8]\<rparr>, unit_fresh)"
    by (simp add: commitUnitOfWork_def ru_commit_def releaseSnapshot_def example_simps
        unit_simps world_simps)
  have d: "ru_depth (registerChange 8 (registerChange 3 unit_put)) \<le> 1"
    and f: "\<not> db_writeFails (db world0)"
    and r: "ru_changes (registerChange 8 (registerChange 3 unit_put)) = [3, 8]"
    by (simp_all add: example_simps unit_simps world_simps)
  from C7_changes_forward_on_commit_reverse_on_abort [where s = unit_put and cs = "[3, 8]"]
       C7_changes_forward_on_commit_reverse_on_abort [where s = "registerChange 8 (registerChange 3 unit_put)" and w = world0
             and w' = "world_put\<lparr>trace := trace world_put @ [ChangeCommit 3, ChangeCommit 8]\<rparr>"
             and s' = unit_fresh]
       c d f r
  show ?thesis by blast
qed

text \<open>
  C8. A point lookup through the recovery unit. If the latest operation of the write buffer
  on the key (in the column family of the lookup) is a delete, the lookup reports not-found
  and the world and the unit are unchanged: the store is not consulted. If it is a put, the
  lookup returns the buffered value, again with nothing else changed. Otherwise (no write
  buffer, or none of its operations is on the key) the lookup is the store's, scoped to the
  unit's snapshot: the one it holds, or, if it holds none, one acquired now (token first),
  which shows the store's current data.
\<close>

theorem C8_point_lookup:
  "(ru_writeBatch s = Some b \<and> latest_op c k b = Some e \<and> etype e = kDeleteRecord \<longrightarrow>
      Get c k w s = ((NotFound, None), w, s)) \<and>
   (ru_writeBatch s = Some b \<and> latest_op c k b = Some e \<and> etype e = kPutRecord \<longrightarrow>
      Get c k w s = ((OK, Some (evalue e)), w, s)) \<and>
   ((case ru_writeBatch s of None \<Rightarrow> True | Some b' \<Rightarrow> latest_op c k b' = None) \<longrightarrow>
      Get c k w s =
        (case ru_snapshot s of
           Some h \<Rightarrow>
             (db_Get \<lparr>ro_snapshot = Some h\<rparr> c k (db w),
              w\<lparr>trace := trace w @ [DbGet \<lparr>ro_snapshot = Some h\<rparr> c k]\<rparr>,
              s)
         | None \<Rightarrow>
             (db_Get \<lparr>ro_snapshot = None\<rparr> c k (db w),
              w\<lparr>db := snd (db_GetSnapshot (db w)),
                trace := trace w @
                  [TxnRecordSnapshotId, DbGetSnapshot (db_nextSnapshot (db w)),
                   DbGet \<lparr>ro_snapshot = Some (db_nextSnapshot (db w))\<rparr> c k]\<rparr>,
              s\<lparr>ru_snapshot := Some (db_nextSnapshot (db w))\<rparr>)))"
proof (intro conjI impI)
  assume "ru_writeBatch s = Some b \<and> latest_op c k b = Some e \<and> etype e = kDeleteRecord"
  then show "Get c k w s = ((NotFound, None), w, s)"
    by (simp add: Get_def probe_latest)
next
  assume "ru_writeBatch s = Some b \<and> latest_op c k b = Some e \<and> etype e = kPutRecord"
  then show "Get c k w s = ((OK, Some (evalue e)), w, s)"
    by (simp add: Get_def probe_latest)
next
  assume "case ru_writeBatch s of None \<Rightarrow> True | Some b' \<Rightarrow> latest_op c k b' = None"
  then have "probe s c k = None"
    by (simp add: probe_latest split: option.splits)
  then show "Get c k w s =
        (case ru_snapshot s of
           Some h \<Rightarrow>
             (db_Get \<lparr>ro_snapshot = Some h\<rparr> c k (db w),
              w\<lparr>trace := trace w @ [DbGet \<lparr>ro_snapshot = Some h\<rparr> c k]\<rparr>,
              s)
         | None \<Rightarrow>
             (db_Get \<lparr>ro_snapshot = None\<rparr> c k (db w),
              w\<lparr>db := snd (db_GetSnapshot (db w)),
                trace := trace w @
                  [TxnRecordSnapshotId, DbGetSnapshot (db_nextSnapshot (db w)),
                   DbGet \<lparr>ro_snapshot = Some (db_nextSnapshot (db w))\<rparr> c k]\<rparr>,
              s\<lparr>ru_snapshot := Some (db_nextSnapshot (db w))\<rparr>))"
    by (simp add: Get_def snapshot_eq emit_def ReadOptions_default_def Let_def
        db_Get_def db_view_def db_GetSnapshot_def split: option.splits)
qed

theorem C8_witness:
  "ru_writeBatch (writeBatch_Delete 1 ''k'' unit_put)
     = Some [(1, WriteEntry kPutRecord ''k'' ''v''), (1, WriteEntry kDeleteRecord ''k'' [])] \<and>
   latest_op 1 ''k'' [(1, WriteEntry kPutRecord ''k'' ''v''), (1, WriteEntry kDeleteRecord ''k'' [])]
     = Some (WriteEntry kDeleteRecord ''k'' []) \<and>
   Get 1 ''k'' world0 (writeBatch_Delete 1 ''k'' unit_put)
     = ((NotFound, None), world0, writeBatch_Delete 1 ''k'' unit_put) \<and>
   ru_writeBatch unit_put = Some [(1, WriteEntry kPutRecord ''k'' ''v'')] \<and>
   latest_op 1 ''k'' [(1, WriteEntry kPutRecord ''k'' ''v'')]
     = Some (WriteEntry kPutRecord ''k'' ''v'') \<and>
   Get 1 ''k'' world0 unit_put = ((OK, Some ''v''), world0, unit_put) \<and>
   latest_op 1 ''j'' [(1, WriteEntry kPutRecord ''k'' ''v'')] = None \<and>
   ru_snapshot unit_put = None \<and>
   Get 1 ''j'' world_put unit_put =
     (db_Get \<lparr>ro_snapshot = None\<rparr> 1 ''j'' (db world_put),
      world_put\<lparr>db := snd (db_GetSnapshot (db world_put)),
        trace := trace world_put @
          [TxnRecordSnapshotId, DbGetSnapshot (db_nextSnapshot (db world_put)),
           DbGet \<lparr>ro_snapshot = Some (db_nextSnapshot (db world_put))\<rparr> 1 ''j'']\<rparr>,
      unit_put\<lparr>ru_snapshot := Some (db_nextSnapshot (db world_put))\<rparr>)"
proof -
  have b1: "ru_writeBatch (writeBatch_Delete 1 ''k'' unit_put)
     = Some [(1, WriteEntry kPutRecord ''k'' ''v''), (1, WriteEntry kDeleteRecord ''k'' [])]"
    and b2: "ru_writeBatch unit_put = Some [(1, WriteEntry kPutRecord ''k'' ''v'')]"
    and n: "ru_snapshot unit_put = None"
    by (simp_all add: example_simps unit_simps)
  have l1: "latest_op 1 ''k'' [(1, WriteEntry kPutRecord ''k'' ''v''), (1, WriteEntry kDeleteRecord ''k'' [])]
     = Some (WriteEntry kDeleteRecord ''k'' [])"
    and l2: "latest_op 1 ''k'' [(1, WriteEntry kPutRecord ''k'' ''v'')]
     = Some (WriteEntry kPutRecord ''k'' ''v'')"
    and l3: "latest_op 1 ''j'' [(1, WriteEntry kPutRecord ''k'' ''v'')] = None"
    by simp_all
  from C8_point_lookup [where s = "writeBatch_Delete 1 ''k'' unit_put" and c = 1 and k = "''k''" and w = world0
             and b = "[(1, WriteEntry kPutRecord ''k'' ''v''), (1, WriteEntry kDeleteRecord ''k'' [])]"
             and e = "WriteEntry kDeleteRecord ''k'' []"]
       b1 l1
  have g1: "Get 1 ''k'' world0 (writeBatch_Delete 1 ''k'' unit_put)
     = ((NotFound, None), world0, writeBatch_Delete 1 ''k'' unit_put)" by simp
  from C8_point_lookup [where s = unit_put and c = 1 and k = "''k''" and w = world0
             and b = "[(1, WriteEntry kPutRecord ''k'' ''v'')]"
             and e = "WriteEntry kPutRecord ''k'' ''v''"]
       b2 l2
  have g2: "Get 1 ''k'' world0 unit_put = ((OK, Some ''v''), world0, unit_put)" by simp
  from C8_point_lookup [where s = unit_put and c = 1 and k = "''j''" and w = world_put] b2 l3 n
  have g3: "Get 1 ''j'' world_put unit_put =
     (db_Get \<lparr>ro_snapshot = None\<rparr> 1 ''j'' (db world_put),
      world_put\<lparr>db := snd (db_GetSnapshot (db world_put)),
        trace := trace world_put @
          [TxnRecordSnapshotId, DbGetSnapshot (db_nextSnapshot (db world_put)),
           DbGet \<lparr>ro_snapshot = Some (db_nextSnapshot (db world_put))\<rparr> 1 ''j'']\<rparr>,
      unit_put\<lparr>ru_snapshot := Some (db_nextSnapshot (db world_put))\<rparr>)" by simp
  from b1 b2 n l1 l2 l3 g1 g2 g3 show ?thesis by blast
qed

text \<open>
  C9. The claim: after the physical commit at depth 1, the \<^verbatim>\<open>endUnitOfWork\<close> that brings
  the depth to 0 runs an abort that changes no state and notifies nobody. What the code
  does: that abort rolls back no change, makes no call on the store and leaves the world
  otherwise unchanged, but it does call the conflict tracker's \<^verbatim>\<open>abort()\<close>, once. In the
  unit it sets the depth to 0 and empties the counter deltas, which were already empty if
  the commit found a write buffer (and were left as they were if it found none).
\<close>

theorem C9_end_after_commit:
  assumes "ru_depth s = 1" and "commitUnitOfWork w s = Inr (w1, s1)"
  shows "endUnitOfWork w1 s1 =
           (w1\<lparr>trace := trace w1 @ [TxnAbort]\<rparr>, s1\<lparr>ru_depth := 0, ru_deltaCounters := []\<rparr>) \<and>
         (if ru_writeBatch s = None then ru_deltaCounters s1 = ru_deltaCounters s
          else ru_deltaCounters s1 = [])"
proof -
  from assms have d: "ru_depth s \<le> 1" by simp
  from commitUnitOfWork_unit [OF assms(2) d] assms(1) show ?thesis
    by (auto simp: endUnitOfWork_def ru_abort_eq releaseSnapshot_def Let_def split: if_splits)
qed

text \<open>
  The claim as stated fails: after a commit that wrote a put, \<^verbatim>\<open>endUnitOfWork\<close> adds a
  call of the conflict tracker's \<^verbatim>\<open>abort()\<close> to the trace.
\<close>

theorem C9_counterexample:
  "map_sum id (trace \<circ> fst)
     (run [Call_beginUnitOfWork, Call_Put 1 ''k'' ''v'', Call_commitUnitOfWork]
        (world0, new_RocksRecoveryUnit True))
   = Inr [DbWrite WriteOptions_default [(1, WriteEntry kPutRecord ''k'' ''v'')], TxnCommit] \<and>
   map_sum id (trace \<circ> fst)
     (run [Call_beginUnitOfWork, Call_Put 1 ''k'' ''v'', Call_commitUnitOfWork,
           Call_endUnitOfWork]
        (world0, new_RocksRecoveryUnit True))
   = Inr [DbWrite WriteOptions_default [(1, WriteEntry kPutRecord ''k'' ''v'')], TxnCommit,
          TxnAbort]"
  by (simp add: commitUnitOfWork_def ru_commit_def releaseSnapshot_def endUnitOfWork_def
      ru_abort_def unit_simps world_simps)

theorem C9_witness:
  "ru_depth unit_put = 1 \<and>
   commitUnitOfWork world0 unit_put = Inr (world_put, unit_fresh) \<and>
   endUnitOfWork world_put unit_fresh =
     (world_put\<lparr>trace := trace world_put @ [TxnAbort]\<rparr>,
      unit_fresh\<lparr>ru_depth := 0, ru_deltaCounters := []\<rparr>) \<and>
   ru_writeBatch unit_put \<noteq> None \<and>
   ru_deltaCounters unit_fresh = []"
proof -
  have d: "ru_depth unit_put = 1" and b: "ru_writeBatch unit_put \<noteq> None"
    by (simp_all add: example_simps unit_simps)
  from C9_end_after_commit [OF d commit_unit_put] d b commit_unit_put show ?thesis
    by simp
qed

text \<open>
  C10. \<^verbatim>\<open>NewIterator\<close> on the store's default column family fails the invariant
  \<^verbatim>\<open>columnFamily != _db->DefaultColumnFamily()\<close> instead of returning an iterator, and on
  every other column family it returns one.
\<close>

theorem C10_NewIterator_rejects_default_column_family:
  "NewIterator (DefaultColumnFamily (db w)) w s =
     Inl (InvariantFailure ''columnFamily != _db->DefaultColumnFamily()'') \<and>
   ((\<exists>r. NewIterator c w s = Inr r) = (c \<noteq> DefaultColumnFamily (db w)))"
  by (auto simp: NewIterator_def Let_def split: prod.splits)

end
